theory Spec2Isabelle
  imports Complex_Main "HOL-Library.Word" "HOL-Library.List_Lexorder"
    "HOL-Library.Product_Lexorder"
begin

section \<open>Strings, senders and chat turns\<close>

text \<open>
  A JavaScript string is a sequence of UTF-16 code units, and \<open>length\<close> counts code
  units. String constants of the program are written as HOL literals and converted by
  \<open>js\<close>.
\<close>

type_synonym jsstring = "16 word list"

definition js :: "string \<Rightarrow> jsstring" where
  "js s = map of_char s"

text \<open>The white space and line terminators removed by \<open>String.prototype.trim\<close>.\<close>

definition isWhiteSpace :: "16 word \<Rightarrow> bool" where
  "isWhiteSpace c =
     (c = 0x9 \<or> c = 0xA \<or> c = 0xB \<or> c = 0xC \<or> c = 0xD \<or> c = 0x20 \<or> c = 0xA0
      \<or> c = 0x1680 \<or> (0x2000 \<le> c \<and> c \<le> 0x200A) \<or> c = 0x2028 \<or> c = 0x2029
      \<or> c = 0x202F \<or> c = 0x205F \<or> c = 0x3000 \<or> c = 0xFEFF)"

definition trim :: "jsstring \<Rightarrow> jsstring" where
  "trim s = rev (dropWhile isWhiteSpace (rev (dropWhile isWhiteSpace s)))"

text \<open>\<open>s.split(sep)\<close> for a one-character separator: never the empty list.\<close>

fun split :: "16 word \<Rightarrow> jsstring \<Rightarrow> jsstring list" where
  "split sep [] = [[]]"
| "split sep (c # cs) =
     (let later = split sep cs
      in if c = sep then [] # later else (c # hd later) # tl later)"

datatype Sender = User | Ai

record ChatTurn =
  role :: Sender
  content :: jsstring

section \<open>Token budget (services/llm/tokenBudget.ts)\<close>

text \<open>\<open>Math.ceil(m.content.length / 4)\<close>\<close>

definition estimateTokens :: "ChatTurn \<Rightarrow> int" where
  "estimateTokens m = \<lceil>real (length (content m)) / 4\<rceil>"

record BudgetResult =
  selectedNewestToOldest :: "ChatTurn list"
  usedTokens :: int

text \<open>
  The \<open>for ... of\<close> loop of \<open>takeRecentWithinTokenBudget\<close>, with its two mutable
  variables \<open>selected\<close> and \<open>used\<close> as accumulators; \<open>break\<close> returns them.
\<close>

fun budgetLoop :: "int \<Rightarrow> ChatTurn list \<Rightarrow> ChatTurn list \<Rightarrow> int \<Rightarrow> ChatTurn list \<times> int" where
  "budgetLoop maxTokens [] selected used = (selected, used)"
| "budgetLoop maxTokens (m # rest) selected used =
     (let tokens = estimateTokens m
      in if used + tokens > maxTokens then (selected, used)
         else budgetLoop maxTokens rest (selected @ [m]) (used + tokens))"

definition takeRecentWithinTokenBudget :: "int \<Rightarrow> ChatTurn list \<Rightarrow> BudgetResult" where
  "takeRecentWithinTokenBudget maxTokens newestToOldest =
     (case budgetLoop maxTokens newestToOldest [] 0 of
        (selected, used) \<Rightarrow> \<lparr>selectedNewestToOldest = selected, usedTokens = used\<rparr>)"

section \<open>Rate limiter (services/rateLimit.ts)\<close>

record Entry =
  count :: int
  resetAt :: int

record AllowResult =
  allowed :: bool
  retryAfterMs :: "int option"

type_synonym buckets = "jsstring \<rightharpoonup> Entry"

text \<open>
  \<open>allowRequest\<close> reads the clock (\<open>Date.now()\<close>, here the argument \<open>now\<close>) and
  updates the module-level map \<open>buckets\<close>, which is passed in and returned. The limit
  \<open>max\<close> is a number, not only a whole one: here a real, which is every finite limit
  (\<open>NaN\<close> and the infinities are left out). The counter is compared with it as it is.
\<close>

definition allowRequest :: "buckets \<Rightarrow> int \<Rightarrow> jsstring \<Rightarrow> int \<Rightarrow> real \<Rightarrow> buckets \<times> AllowResult" where
  "allowRequest bs now key windowMs maxRequests =
     (case bs key of
        None \<Rightarrow>
          (bs(key \<mapsto> \<lparr>count = 1, resetAt = now + windowMs\<rparr>),
           \<lparr>allowed = True, retryAfterMs = None\<rparr>)
      | Some entry \<Rightarrow>
          if resetAt entry \<le> now then
            (bs(key \<mapsto> \<lparr>count = 1, resetAt = now + windowMs\<rparr>),
             \<lparr>allowed = True, retryAfterMs = None\<rparr>)
          else if real_of_int (count entry) \<ge> maxRequests then
            (bs, \<lparr>allowed = False, retryAfterMs = Some (resetAt entry - now)\<rparr>)
          else
            (bs(key \<mapsto> entry\<lparr>count := count entry + 1\<rparr>),
             \<lparr>allowed = True, retryAfterMs = None\<rparr>))"

text \<open>
  The condition under which a call opens a new window instance: no entry for the key,
  or the entry's window has elapsed.
\<close>

definition opensWindow :: "buckets \<Rightarrow> int \<Rightarrow> jsstring \<Rightarrow> bool" where
  "opensWindow bs now key =
     (case bs key of None \<Rightarrow> True | Some entry \<Rightarrow> resetAt entry \<le> now)"

text \<open>
  A sequence of calls on the shared map, each with its own arguments and clock reading.
  Every call is recorded with whether it opened a window and with its result.
\<close>

record Call =
  call_now :: int
  call_key :: jsstring
  call_windowMs :: int
  call_max :: real

record CallRecord =
  call :: Call
  opened :: bool
  outcome :: AllowResult

fun runRequests :: "buckets \<Rightarrow> Call list \<Rightarrow> buckets \<times> CallRecord list" where
  "runRequests bs [] = (bs, [])"
| "runRequests bs (c # later) =
     (case allowRequest bs (call_now c) (call_key c) (call_windowMs c) (call_max c) of
        (bs', r) \<Rightarrow>
          (case runRequests bs' later of
             (bs'', rs) \<Rightarrow>
               (bs'', \<lparr>call = c, opened = opensWindow bs (call_now c) (call_key c),
                       outcome = r\<rparr> # rs)))"

text \<open>The records of one key, and the number of allowed calls in a stretch of them.\<close>

definition forKey :: "jsstring \<Rightarrow> CallRecord list \<Rightarrow> CallRecord list" where
  "forKey k rs = filter (\<lambda>r. call_key (call r) = k) rs"

definition allowedCount :: "CallRecord list \<Rightarrow> nat" where
  "allowedCount rs = length (filter (\<lambda>r. allowed (outcome r)) rs)"

section \<open>The platform outside the repository\<close>

text \<open>
  Library and database functions the program calls but does not define. They are
  parameters of the model: nothing is assumed about them except where a theorem says so.
  Timestamps (\<open>Date\<close> values, \<open>timestamptz\<close> column values) are milliseconds since
  the epoch. A \<open>uuid\<close> column value is its canonical text, and the order of
  \<open>uuid\<close> values is the order of that text.
\<close>

record Platform =
  zodDatetime :: "jsstring \<Rightarrow> bool"            \<comment> \<open>\<open>z.string().datetime().safeParse(s).success\<close>\<close>
  zodUuid :: "jsstring \<Rightarrow> bool"                \<comment> \<open>\<open>z.string().uuid().safeParse(s).success\<close>\<close>
  dateParse :: "jsstring \<Rightarrow> int option"        \<comment> \<open>\<open>Date.parse(s)\<close>, \<open>None\<close> for \<open>NaN\<close>\<close>
  toISOString :: "int \<Rightarrow> jsstring"              \<comment> \<open>\<open>new Date(ms).toISOString()\<close>\<close>
  pgTimestamptz :: "jsstring \<Rightarrow> int option"    \<comment> \<open>the cast \<open>$n::timestamptz\<close>, \<open>None\<close> when it raises\<close>
  pgUuid :: "jsstring \<Rightarrow> jsstring option"      \<comment> \<open>the cast \<open>$n::uuid\<close>, \<open>None\<close> when it raises\<close>
  pgTimestampOut :: "int \<Rightarrow> jsstring"           \<comment> \<open>a row's \<open>created_at\<close>, as string interpolation renders it\<close>

text \<open>The part of \<open>env\<close> (env.ts) the modelled code reads.\<close>

record Env =
  CHAT_PAGE_SIZE :: int
  OPENAI_API_KEY :: "jsstring option"
  LLM_MAX_CONTEXT_TOKENS :: int
  MAX_MESSAGE_CHARS :: int

section \<open>Message store (repos/chatRepo.ts, db/init.ts)\<close>

record ConversationRec =
  conv_id :: jsstring
  conv_created_at :: int

text \<open>A row of the table \<open>messages\<close>.\<close>

record StoredMessage =
  stored_id :: jsstring
  stored_conversation_id :: jsstring
  stored_sender :: Sender
  stored_text :: jsstring
  stored_created_at :: int

text \<open>
  The type \<open>MessageRow\<close> of a query result: every column as the driver renders it.
  \<open>created_at\<close> is held as the text that a template literal makes of the value,
  which is what \<open>nextCursor\<close> is built from; the rendering of the same value in a
  JSON body (an ISO text, also for a \<open>Date\<close>) is not modelled.
\<close>

record MessageRow =
  id_col :: jsstring
  conversation_id :: jsstring
  sender :: Sender
  text_col :: jsstring
  created_at :: jsstring

record Store =
  conversations :: "ConversationRec list"
  messages :: "StoredMessage list"

datatype DbError =
  ConnectionError | InvalidTextRepresentation | ForeignKeyViolation | UniqueViolation
  | InvalidRowCount

datatype LlmError = Timeout | ProviderError | MalformedResponse

datatype Failure = StorageFailure DbError | ApiKeyMissing | CompletionFailure LlmError

definition toRow :: "Platform \<Rightarrow> StoredMessage \<Rightarrow> MessageRow" where
  "toRow P m =
     \<lparr>id_col = stored_id m, conversation_id = stored_conversation_id m,
      sender = stored_sender m, text_col = stored_text m,
      created_at = pgTimestampOut P (stored_created_at m)\<rparr>"

text \<open>The ordering key of \<open>ORDER BY created_at, id\<close> and of the row comparison.\<close>

definition orderKey :: "StoredMessage \<Rightarrow> int \<times> jsstring" where
  "orderKey m = (stored_created_at m, stored_id m)"

text \<open>
  Every repository function runs one statement through the pool; \<open>conn\<close> says whether
  the round trip to the database succeeds.
  \<open>INSERT INTO conversations (id) VALUES ($1::uuid) ON CONFLICT (id) DO NOTHING\<close>;
  \<open>created_at\<close> defaults to the database clock \<open>dbNow\<close>.
\<close>

definition ensureConversation ::
  "Platform \<Rightarrow> Store \<Rightarrow> bool \<Rightarrow> int \<Rightarrow> jsstring \<Rightarrow> Failure + Store" where
  "ensureConversation P st conn dbNow conversationId =
     (if \<not> conn then Inl (StorageFailure ConnectionError)
      else case pgUuid P conversationId of
        None \<Rightarrow> Inl (StorageFailure InvalidTextRepresentation)
      | Some c \<Rightarrow>
          if c \<in> conv_id ` set (conversations st) then Inr st
          else Inr (st\<lparr>conversations :=
                 conversations st @ [\<lparr>conv_id = c, conv_created_at = dbNow\<rparr>]\<rparr>))"

record InsertArgs =
  arg_conversationId :: jsstring
  arg_sender :: Sender
  arg_text :: jsstring
  arg_createdAt :: "int option"

text \<open>
  What \<open>insertMessage\<close> takes from outside: the connection, \<open>randomUUID()\<close> and
  \<open>new Date()\<close>.
\<close>

record InsertIo =
  ins_conn :: bool
  ins_uuid :: jsstring
  ins_clock :: int

definition insertMessage ::
  "Platform \<Rightarrow> Store \<Rightarrow> InsertIo \<Rightarrow> InsertArgs \<Rightarrow> Failure + (Store \<times> jsstring \<times> int)" where
  "insertMessage P st io args =
     (let newId = ins_uuid io;
          createdAt = (case arg_createdAt args of Some d \<Rightarrow> d | None \<Rightarrow> ins_clock io)
      in if \<not> ins_conn io then Inl (StorageFailure ConnectionError)
         else case (pgUuid P newId, pgUuid P (arg_conversationId args),
                    pgTimestamptz P (toISOString P createdAt)) of
           (Some i, Some c, Some t) \<Rightarrow>
             if c \<notin> conv_id ` set (conversations st) then
               Inl (StorageFailure ForeignKeyViolation)
             else if i \<in> stored_id ` set (messages st) then
               Inl (StorageFailure UniqueViolation)
             else
               Inr (st\<lparr>messages := messages st @
                      [\<lparr>stored_id = i, stored_conversation_id = c,
                        stored_sender = arg_sender args, stored_text = arg_text args,
                        stored_created_at = t\<rparr>]\<rparr>,
                    newId, createdAt)
         | _ \<Rightarrow> Inl (StorageFailure InvalidTextRepresentation))"

text \<open>
  \<open>ORDER BY created_at DESC, id DESC LIMIT n\<close> over the selected rows, then
  \<open>res.rows.slice().reverse()\<close>.
\<close>

definition newestFirst :: "StoredMessage list \<Rightarrow> StoredMessage list" where
  "newestFirst ms = rev (sort_key orderKey ms)"

definition pageOf :: "Platform \<Rightarrow> int \<Rightarrow> StoredMessage list \<Rightarrow> MessageRow list" where
  "pageOf P limit selectedRows =
     rev (map (toRow P) (take (nat limit) (newestFirst selectedRows)))"

definition getRecentMessages ::
  "Platform \<Rightarrow> Store \<Rightarrow> bool \<Rightarrow> jsstring \<Rightarrow> int \<Rightarrow> Failure + MessageRow list" where
  "getRecentMessages P st conn conversationId limit =
     (if \<not> conn then Inl (StorageFailure ConnectionError)
      else case pgUuid P conversationId of
        None \<Rightarrow> Inl (StorageFailure InvalidTextRepresentation)
      | Some c \<Rightarrow>
          if limit < 0 then Inl (StorageFailure InvalidRowCount)
          else Inr (pageOf P limit
                 (filter (\<lambda>m. stored_conversation_id m = c) (messages st))))"

record OlderArgs =
  older_conversationId :: jsstring
  cursorCreatedAt :: jsstring
  cursorId :: "jsstring option"
  older_limit :: int

definition getOlderMessages ::
  "Platform \<Rightarrow> Store \<Rightarrow> bool \<Rightarrow> OlderArgs \<Rightarrow> Failure + MessageRow list" where
  "getOlderMessages P st conn args =
     (if \<not> conn then Inl (StorageFailure ConnectionError)
      else if cursorId args \<noteq> None \<and> cursorId args \<noteq> Some [] then
        (case (pgUuid P (older_conversationId args), pgTimestamptz P (cursorCreatedAt args),
               pgUuid P (the (cursorId args))) of
           (Some c, Some t, Some i) \<Rightarrow>
             if older_limit args < 0 then Inl (StorageFailure InvalidRowCount)
             else Inr (pageOf P (older_limit args)
                    (filter (\<lambda>m. stored_conversation_id m = c \<and> orderKey m < (t, i))
                       (messages st)))
         | _ \<Rightarrow> Inl (StorageFailure InvalidTextRepresentation))
      else
        (case (pgUuid P (older_conversationId args), pgTimestamptz P (cursorCreatedAt args)) of
           (Some c, Some t) \<Rightarrow>
             if older_limit args < 0 then Inl (StorageFailure InvalidRowCount)
             else Inr (pageOf P (older_limit args)
                    (filter (\<lambda>m. stored_conversation_id m = c \<and> stored_created_at m < t)
                       (messages st)))
         | _ \<Rightarrow> Inl (StorageFailure InvalidTextRepresentation)))"

section \<open>Support agent (services/llm/supportAgent.ts)\<close>

datatype LcMessage = SystemMessage jsstring | HumanMessage jsstring | AIMessage jsstring

text \<open>
  The messages handed to the model: the system text (\<open>SYSTEM_PROMPT\<close>, a blank line,
  \<open>FAQ_SEED\<close>: a fixed constant, here \<open>systemText\<close>), then the turns selected under
  the budget \<open>Math.max(1, env.LLM_MAX_CONTEXT_TOKENS)\<close>, oldest first.
\<close>

definition candidateTurns :: "ChatTurn list \<Rightarrow> jsstring \<Rightarrow> ChatTurn list" where
  "candidateTurns historyOldestToNewest userMessage =
     \<lparr>role = User, content = userMessage\<rparr> # rev historyOldestToNewest"

definition contextBudget :: "Env \<Rightarrow> int" where
  "contextBudget env = max 1 (LLM_MAX_CONTEXT_TOKENS env)"

definition lcMessages :: "Env \<Rightarrow> jsstring \<Rightarrow> ChatTurn list \<Rightarrow> jsstring \<Rightarrow> LcMessage list" where
  "lcMessages env systemText historyOldestToNewest userMessage =
     (let newestToOldest = candidateTurns historyOldestToNewest userMessage;
          budget = contextBudget env;
          selected = selectedNewestToOldest (takeRecentWithinTokenBudget budget newestToOldest);
          selectedOldestToNewest = rev selected
      in SystemMessage systemText #
         map (\<lambda>m. if role m = User then HumanMessage (content m) else AIMessage (content m))
           selectedOldestToNewest)"

definition fallbackReply :: jsstring where
  "fallbackReply = js ''I'm sorry - I couldn't generate a response right now.''"

text \<open>
  \<open>invoke\<close> is the external completion call: it fails, or returns the reply's content
  (\<open>None\<close> when the content is nullish).
\<close>

definition generateSupportReply ::
  "Env \<Rightarrow> jsstring \<Rightarrow> (LcMessage list \<Rightarrow> LlmError + jsstring option) \<Rightarrow> ChatTurn list
     \<Rightarrow> jsstring \<Rightarrow> Failure + jsstring" where
  "generateSupportReply env systemText invoke historyOldestToNewest userMessage =
     (if OPENAI_API_KEY env = None \<or> OPENAI_API_KEY env = Some [] then Inl ApiKeyMissing
      else case invoke (lcMessages env systemText historyOldestToNewest userMessage) of
        Inl e \<Rightarrow> Inl (CompletionFailure e)
      | Inr res \<Rightarrow>
          (let text = trim (case res of None \<Rightarrow> [] | Some c \<Rightarrow> c)
           in Inr (if text = [] then fallbackReply else text)))"

section \<open>Responses\<close>

datatype Body =
  ErrorBody string
  | ReplyBody jsstring jsstring
  | HistoryBody "MessageRow list" "jsstring option"

record Response =
  status :: nat
  retryAfterHeader :: "int option"
  body :: Body

definition errorResponse :: "nat \<Rightarrow> string \<Rightarrow> Response" where
  "errorResponse code msg = \<lparr>status = code, retryAfterHeader = None, body = ErrorBody msg\<rparr>"

definition okResponse :: "Body \<Rightarrow> Response" where
  "okResponse b = \<lparr>status = 200, retryAfterHeader = None, body = b\<rparr>"

section \<open>Rate-limit middleware (middleware/rateLimitMiddleware.ts)\<close>

definition sessionOverloaded :: string where
  "sessionOverloaded = ''The system is overloaded. Please wait a moment before sending more messages.''"

definition ipOverloaded :: string where
  "ipOverloaded = ''The system is overloaded. Please try again shortly.''"

text \<open>
  The 429 response: the header \<open>Retry-After\<close> is set to
  \<open>Math.ceil(retryAfterMs / 1000)\<close> when \<open>retryAfterMs\<close> is truthy.
\<close>

definition blocked :: "AllowResult \<Rightarrow> string \<Rightarrow> Response" where
  "blocked r msg =
     \<lparr>status = 429,
      retryAfterHeader =
        (case retryAfterMs r of
           None \<Rightarrow> None
         | Some ms \<Rightarrow> if ms = 0 then None else Some \<lceil>real_of_int ms / 1000\<rceil>),
      body = ErrorBody msg\<rparr>"

text \<open>
  A request to POST /message: the client address and the two body fields (\<open>None\<close> when
  the field is missing or not a string). The middleware answers (\<open>Some\<close>) or calls
  \<open>next()\<close> (\<open>None\<close>).
\<close>

record MessageRequest =
  req_ip :: jsstring
  body_message :: "jsstring option"
  body_sessionId :: "jsstring option"

definition rateLimitMessage :: "buckets \<Rightarrow> int \<Rightarrow> MessageRequest \<Rightarrow> buckets \<times> Response option" where
  "rateLimitMessage bs now req =
     (case body_sessionId req of
        Some (c # cs) \<Rightarrow>
          (case allowRequest bs now (js ''msg:sess:'' @ (c # cs)) 10000 5 of
             (bs', perSession) \<Rightarrow>
               if \<not> allowed perSession then (bs', Some (blocked perSession sessionOverloaded))
               else (bs', None))
      | _ \<Rightarrow>
          (case allowRequest bs now (js ''msg:ip:'' @ req_ip req) 60000 20 of
             (bs', perIp) \<Rightarrow>
               if \<not> allowed perIp then (bs', Some (blocked perIp ipOverloaded))
               else (bs', None)))"

definition rateLimitHistory :: "buckets \<Rightarrow> int \<Rightarrow> jsstring \<Rightarrow> buckets \<times> Response option" where
  "rateLimitHistory bs now ip =
     (case allowRequest bs now (js ''hist:ip:'' @ ip) 60000 120 of
        (bs', perIp) \<Rightarrow>
          if \<not> allowed perIp then (bs', Some (blocked perIp ipOverloaded))
          else (bs', None))"

section \<open>POST /message (routes/chatRoute.ts)\<close>

definition invalidRequest :: string where
  "invalidRequest = ''Invalid request''"

definition messageEmpty :: string where
  "messageEmpty = ''Message is empty''"

definition messageTooLong :: string where
  "messageTooLong = ''Message is too long''"

definition llmApology :: string where
  "llmApology = ''I'm sorry - I'm having trouble responding right now. Please try again in a moment.''"

definition somethingWentWrong :: string where
  "somethingWentWrong = ''Something went wrong. Please try again.''"

text \<open>
  \<open>postMessageSchema.safeParse(req.body)\<close>: \<open>message\<close> is a string whose trimmed
  form is not empty, \<open>sessionId\<close> is a uuid string. The parsed message is the trimmed one.
\<close>

definition parseMessageBody :: "Platform \<Rightarrow> MessageRequest \<Rightarrow> (jsstring \<times> jsstring) option" where
  "parseMessageBody P req =
     (case (body_message req, body_sessionId req) of
        (Some m, Some s) \<Rightarrow>
          if length (trim m) \<ge> 1 \<and> zodUuid P s then Some (trim m, s) else None
      | _ \<Rightarrow> None)"

text \<open>Removing the code units U+200B to U+200F and U+FEFF, then \<open>trim()\<close>.\<close>

definition stripInvisible :: "jsstring \<Rightarrow> jsstring" where
  "stripInvisible s = filter (\<lambda>c. \<not> ((0x200B \<le> c \<and> c \<le> 0x200F) \<or> c = 0xFEFF)) s"

definition cleanText :: "jsstring \<Rightarrow> jsstring" where
  "cleanText message = trim (stripInvisible message)"

definition toTurn :: "MessageRow \<Rightarrow> ChatTurn" where
  "toTurn m = \<lparr>role = sender m, content = text_col m\<rparr>"

text \<open>
  Everything the handler takes from outside while it runs: the connection at each
  statement, the database clock, the uuid and clock of each insert, the completion call.
\<close>

record SendIo =
  ensure_conn :: bool
  ensure_dbNow :: int
  recent_conn :: bool
  user_insert :: InsertIo
  invoke :: "LcMessage list \<Rightarrow> LlmError + jsstring option"
  ai_insert :: InsertIo

text \<open>
  What a run leaves behind: the store, the names of the log lines written (in order),
  and the response.
\<close>

record SendOutcome =
  final_store :: Store
  logged :: "string list"
  response :: Response

definition userArgs :: "jsstring \<Rightarrow> jsstring \<Rightarrow> InsertArgs" where
  "userArgs sessionId cleanMessage =
     \<lparr>arg_conversationId = sessionId, arg_sender = User, arg_text = cleanMessage,
      arg_createdAt = None\<rparr>"

definition aiArgs :: "jsstring \<Rightarrow> jsstring \<Rightarrow> InsertArgs" where
  "aiArgs sessionId replyText =
     \<lparr>arg_conversationId = sessionId, arg_sender = Ai, arg_text = replyText,
      arg_createdAt = None\<rparr>"

text \<open>
  The inner \<open>try\<close> block: the completion call and the insert of the reply. Any throw in
  it is caught by the inner \<open>catch\<close>, which answers 502 with the apology.
\<close>

definition replyStage ::
  "Platform \<Rightarrow> Env \<Rightarrow> jsstring \<Rightarrow> SendIo \<Rightarrow> Store \<Rightarrow> string list \<Rightarrow> MessageRow list
     \<Rightarrow> jsstring \<Rightarrow> jsstring \<Rightarrow> SendOutcome" where
  "replyStage P env systemText io st lg recentMessages sessionId cleanMessage =
     (let history = map toTurn recentMessages
      in case generateSupportReply env systemText (invoke io) history cleanMessage of
        Inl e \<Rightarrow>
          \<lparr>final_store = st, logged = lg @ [''chat.message.llm_failed''],
           response = errorResponse 502 llmApology\<rparr>
      | Inr replyText \<Rightarrow>
          (case insertMessage P st (ai_insert io) (aiArgs sessionId replyText) of
             Inl e \<Rightarrow>
               \<lparr>final_store = st,
                logged = lg @ [''chat.message.llm.ok'', ''chat.message.llm_failed''],
                response = errorResponse 502 llmApology\<rparr>
           | Inr (st', _) \<Rightarrow>
               \<lparr>final_store = st',
                logged = lg @ [''chat.message.llm.ok'', ''chat.message.insert_ai.ok'',
                               ''chat.message.finish''],
                response = okResponse (ReplyBody replyText sessionId)\<rparr>))"

text \<open>
  The outer \<open>try\<close> block: ensure the conversation, read the recent messages, insert the
  user's message, then the inner block. A throw of one of the three statements is caught
  by the outer \<open>catch\<close>, which answers 500.
\<close>

definition persistStage ::
  "Platform \<Rightarrow> Env \<Rightarrow> jsstring \<Rightarrow> SendIo \<Rightarrow> Store \<Rightarrow> jsstring \<Rightarrow> jsstring \<Rightarrow> SendOutcome" where
  "persistStage P env systemText io st sessionId cleanMessage =
     (case ensureConversation P st (ensure_conn io) (ensure_dbNow io) sessionId of
        Inl e \<Rightarrow>
          \<lparr>final_store = st, logged = [''chat.message.start'', ''chat.message.failed''],
           response = errorResponse 500 somethingWentWrong\<rparr>
      | Inr st1 \<Rightarrow>
          (case getRecentMessages P st1 (recent_conn io) sessionId (CHAT_PAGE_SIZE env) of
             Inl e \<Rightarrow>
               \<lparr>final_store = st1,
                logged = [''chat.message.start'', ''chat.message.ensure_conversation.ok'',
                          ''chat.message.failed''],
                response = errorResponse 500 somethingWentWrong\<rparr>
           | Inr recentMessages \<Rightarrow>
               (case insertMessage P st1 (user_insert io) (userArgs sessionId cleanMessage) of
                  Inl e \<Rightarrow>
                    \<lparr>final_store = st1,
                     logged = [''chat.message.start'', ''chat.message.ensure_conversation.ok'',
                               ''chat.message.get_recent.ok'', ''chat.message.failed''],
                     response = errorResponse 500 somethingWentWrong\<rparr>
                | Inr (st2, _) \<Rightarrow>
                    replyStage P env systemText io st2
                      [''chat.message.start'', ''chat.message.ensure_conversation.ok'',
                       ''chat.message.get_recent.ok'', ''chat.message.insert_user.ok'']
                      recentMessages sessionId cleanMessage)))"

definition postMessage ::
  "Platform \<Rightarrow> Env \<Rightarrow> jsstring \<Rightarrow> SendIo \<Rightarrow> Store \<Rightarrow> MessageRequest \<Rightarrow> SendOutcome" where
  "postMessage P env systemText io st req =
     (case parseMessageBody P req of
        None \<Rightarrow>
          \<lparr>final_store = st, logged = [''chat.message.validation_failed''],
           response = errorResponse 400 invalidRequest\<rparr>
      | Some (message, sessionId) \<Rightarrow>
          (let cleanMessage = cleanText message
           in if length cleanMessage = 0 then
                \<lparr>final_store = st, logged = [], response = errorResponse 400 messageEmpty\<rparr>
              else if int (length cleanMessage) > MAX_MESSAGE_CHARS env then
                \<lparr>final_store = st, logged = [''chat.message.too_long''],
                 response = errorResponse 413 messageTooLong\<rparr>
              else persistStage P env systemText io st sessionId cleanMessage))"

text \<open>The route: the middleware, then the handler when the middleware calls \<open>next()\<close>.\<close>

definition postMessageRoute ::
  "Platform \<Rightarrow> Env \<Rightarrow> jsstring \<Rightarrow> SendIo \<Rightarrow> buckets \<Rightarrow> int \<Rightarrow> Store \<Rightarrow> MessageRequest
     \<Rightarrow> buckets \<times> SendOutcome" where
  "postMessageRoute P env systemText io bs now st req =
     (case rateLimitMessage bs now req of
        (bs', Some r) \<Rightarrow>
          (bs', \<lparr>final_store = st, logged = [''rate_limit.blocked''], response = r\<rparr>)
      | (bs', None) \<Rightarrow> (bs', postMessage P env systemText io st req))"

section \<open>GET /history (routes/chatRoute.ts)\<close>

record ParsedCursor =
  createdAt :: jsstring
  parsedId :: "jsstring option"

text \<open>The helper \<open>toIso\<close> of \<open>parseCursor\<close>.\<close>

definition toIso :: "Platform \<Rightarrow> jsstring \<Rightarrow> jsstring option" where
  "toIso P raw =
     (let trimmed = trim raw
      in if zodDatetime P trimmed then Some trimmed
         else case dateParse P trimmed of
           Some ms \<Rightarrow> Some (toISOString P ms)
         | None \<Rightarrow> None)"

text \<open>
  \<open>parseCursor\<close>; the result \<open>None\<close> is its \<open>null\<close>. An absent cursor is \<open>None\<close>;
  \<open>!cursor\<close> holds for it and for the empty string; \<open>!createdAtIso\<close> holds for
  \<open>null\<close> and for the empty string.
\<close>

definition parseCursor :: "Platform \<Rightarrow> jsstring option \<Rightarrow> ParsedCursor option" where
  "parseCursor P cursor =
     (case cursor of
        None \<Rightarrow> None
      | Some [] \<Rightarrow> None
      | Some c \<Rightarrow>
          (let parts = split 0x7C c
           in if length parts = 1 then
                (case toIso P (parts ! 0) of
                   None \<Rightarrow> None
                 | Some [] \<Rightarrow> None
                 | Some createdAtIso \<Rightarrow> Some \<lparr>createdAt = createdAtIso, parsedId = None\<rparr>)
              else if length parts = 2 then
                (let uid = trim (parts ! 1)
                 in case toIso P (parts ! 0) of
                   None \<Rightarrow> None
                 | Some [] \<Rightarrow> None
                 | Some createdAtIso \<Rightarrow>
                     if zodDatetime P createdAtIso \<and> zodUuid P uid
                     then Some \<lparr>createdAt = createdAtIso, parsedId = Some uid\<rparr>
                     else None)
              else None))"

text \<open>
  A request to GET /history: the query fields (\<open>None\<close> when absent); \<open>q_limit\<close> is the
  number \<open>limit\<close> is coerced to. \<open>historyQuerySchema\<close> wants a uuid \<open>sessionId\<close>
  and, when given, a positive \<open>limit\<close> of at most 100.
\<close>

record HistoryQuery =
  q_sessionId :: "jsstring option"
  q_cursor :: "jsstring option"
  q_limit :: "int option"

definition parseHistoryQuery :: "Platform \<Rightarrow> HistoryQuery \<Rightarrow> (jsstring \<times> jsstring option \<times> int option) option" where
  "parseHistoryQuery P q =
     (case q_sessionId q of
        None \<Rightarrow> None
      | Some s \<Rightarrow>
          if zodUuid P s \<and> (case q_limit q of None \<Rightarrow> True | Some l \<Rightarrow> 0 < l \<and> l \<le> 100)
          then Some (s, q_cursor q, q_limit q) else None)"

record HistoryOutcome =
  h_logged :: "string list"
  h_response :: Response

text \<open>\<open>`${messages[0].created_at}|${messages[0].id}`\<close>, or \<open>null\<close> for an empty page.\<close>

definition nextCursorOf :: "MessageRow list \<Rightarrow> jsstring option" where
  "nextCursorOf msgs =
     (case msgs of [] \<Rightarrow> None | m # _ \<Rightarrow> Some (created_at m @ js ''|'' @ id_col m))"

definition getHistory :: "Platform \<Rightarrow> Env \<Rightarrow> bool \<Rightarrow> Store \<Rightarrow> HistoryQuery \<Rightarrow> HistoryOutcome" where
  "getHistory P env conn st q =
     (case parseHistoryQuery P q of
        None \<Rightarrow>
          \<lparr>h_logged = [''chat.history.validation_failed''],
           h_response = errorResponse 400 invalidRequest\<rparr>
      | Some (sessionId, cursor, limit) \<Rightarrow>
          (let parsedCursor = parseCursor P cursor
           in if (cursor \<noteq> None \<and> cursor \<noteq> Some []) \<and> parsedCursor = None then
                \<lparr>h_logged = [''chat.history.cursor_invalid''],
                 h_response = errorResponse 400 invalidRequest\<rparr>
              else
                (let pageSize = (case limit of Some l \<Rightarrow> l | None \<Rightarrow> CHAT_PAGE_SIZE env)
                 in case (case parsedCursor of
                            Some pc \<Rightarrow>
                              getOlderMessages P st conn
                                \<lparr>older_conversationId = sessionId, cursorCreatedAt = createdAt pc,
                                 cursorId = parsedId pc, older_limit = pageSize\<rparr>
                          | None \<Rightarrow> getRecentMessages P st conn sessionId pageSize) of
                      Inl e \<Rightarrow>
                        \<lparr>h_logged = [''chat.history.start'', ''chat.history.failed''],
                         h_response = errorResponse 500 somethingWentWrong\<rparr>
                    | Inr msgs \<Rightarrow>
                        \<lparr>h_logged = [''chat.history.start'', ''chat.history.fetch.ok'',
                                     ''chat.history.finish''],
                         h_response = okResponse (HistoryBody msgs (nextCursorOf msgs))\<rparr>)))"

text \<open>
  A client walking the history: the first request carries no cursor, each later one the
  \<open>nextCursor\<close> of the response before, until \<open>nextCursor\<close> is \<open>null\<close>. The result is
  the pages in the order they were fetched; \<open>None\<close> when a request is not answered with a
  page or the fuel runs out.
\<close>

fun walkHistory ::
  "nat \<Rightarrow> Platform \<Rightarrow> Env \<Rightarrow> Store \<Rightarrow> jsstring \<Rightarrow> int option \<Rightarrow> jsstring option
     \<Rightarrow> MessageRow list list option" where
  "walkHistory 0 P env st sessionId limit cursor = None"
| "walkHistory (Suc fuel) P env st sessionId limit cursor =
     (case body (h_response (getHistory P env True st
              \<lparr>q_sessionId = Some sessionId, q_cursor = cursor, q_limit = limit\<rparr>)) of
        HistoryBody msgs None \<Rightarrow> Some [msgs]
      | HistoryBody msgs (Some c) \<Rightarrow>
          (case walkHistory fuel P env st sessionId limit (Some c) of
             None \<Rightarrow> None
           | Some pages \<Rightarrow> Some (msgs # pages))
      | _ \<Rightarrow> None)"

section \<open>Notions used in the statements\<close>

text \<open>The running total of the budgeter: the cost of a list of turns.\<close>

definition turnsCost :: "ChatTurn list \<Rightarrow> int" where
  "turnsCost ms = sum_list (map estimateTokens ms)"

text \<open>
  The page size of a history request: \<open>limit ?? env.CHAT_PAGE_SIZE\<close>.
\<close>

definition pageSizeOf :: "Env \<Rightarrow> int option \<Rightarrow> int" where
  "pageSizeOf env limit = (case limit of Some l \<Rightarrow> l | None \<Rightarrow> CHAT_PAGE_SIZE env)"

text \<open>
  What GET /history answers once the page has been read, or the read has thrown.
\<close>

definition pageResult :: "Failure + MessageRow list \<Rightarrow> HistoryOutcome" where
  "pageResult r =
     (case r of
        Inl e \<Rightarrow> \<lparr>h_logged = [''chat.history.start'', ''chat.history.failed''],
                   h_response = errorResponse 500 somethingWentWrong\<rparr>
      | Inr msgs \<Rightarrow> \<lparr>h_logged = [''chat.history.start'', ''chat.history.fetch.ok'',
                                   ''chat.history.finish''],
                   h_response = okResponse (HistoryBody msgs (nextCursorOf msgs))\<rparr>)"

text \<open>
  \<open>precedes a b xs\<close>: after the first \<open>a\<close> in \<open>xs\<close> there is a \<open>b\<close>.
\<close>

definition precedes :: "'a \<Rightarrow> 'a \<Rightarrow> 'a list \<Rightarrow> bool" where
  "precedes a b xs = (b \<in> set (tl (dropWhile (\<lambda>x. x \<noteq> a) xs)))"

text \<open>
  The log lines of POST /message up to the insert of the user's message.
\<close>

definition reachedLog :: "string list" where
  "reachedLog = [''chat.message.start'', ''chat.message.ensure_conversation.ok'',
                 ''chat.message.get_recent.ok'', ''chat.message.insert_user.ok'']"

text \<open>
  The reply of \<open>generateSupportReply\<close> for a completion result:
  \<open>(res.content ?? '').toString().trim()\<close>, or the fallback sentence when that is
  empty.
\<close>

definition replyText :: "jsstring option \<Rightarrow> jsstring" where
  "replyText res =
     (let text = trim (case res of None \<Rightarrow> [] | Some c \<Rightarrow> c)
      in if text = [] then fallbackReply else text)"

text \<open>
  The stored messages of the sender \<open>ai\<close>.
\<close>

definition aiMessages :: "Store \<Rightarrow> StoredMessage list" where
  "aiMessages st = filter (\<lambda>m. stored_sender m = Ai) (messages st)"

text \<open>
  The stored messages of one conversation, and the same in ascending order of
  \<open>(created_at, id)\<close>.
\<close>

definition conversationMessages :: "Store \<Rightarrow> jsstring \<Rightarrow> StoredMessage list" where
  "conversationMessages st c = filter (\<lambda>m. stored_conversation_id m = c) (messages st)"

definition chronological :: "Store \<Rightarrow> jsstring \<Rightarrow> StoredMessage list" where
  "chronological st c = sort_key orderKey (conversationMessages st c)"

text \<open>
  The cursor made from a message decodes to that message: its timestamp text casts to the
  stored timestamp and its id to the stored id.
\<close>

definition cursorRoundTrips :: "Platform \<Rightarrow> StoredMessage \<Rightarrow> bool" where
  "cursorRoundTrips P m =
     (case parseCursor P (nextCursorOf [toRow P m]) of
        None \<Rightarrow> False
      | Some pc \<Rightarrow>
          pgTimestamptz P (createdAt pc) = Some (stored_created_at m)
          \<and> (case parsedId pc of
                None \<Rightarrow> False
              | Some i \<Rightarrow> i \<noteq> [] \<and> pgUuid P i = Some (stored_id m)))"

text \<open>
  What a history walk starts from: a session id the query schema and the database accept,
  a page size the schema accepts, unique message ids (the primary key), and cursors that
  decode to the message they were made from.
\<close>

definition walkReady :: "Platform \<Rightarrow> Env \<Rightarrow> Store \<Rightarrow> jsstring \<Rightarrow> int option \<Rightarrow> jsstring \<Rightarrow> bool" where
  "walkReady P env st sid limit c =
     (zodUuid P sid \<and> pgUuid P sid = Some c
      \<and> (case limit of None \<Rightarrow> 0 < CHAT_PAGE_SIZE env | Some l \<Rightarrow> 0 < l \<and> l \<le> 100)
      \<and> distinct (map stored_id (messages st))
      \<and> (\<forall>m \<in> set (conversationMessages st c). cursorRoundTrips P m))"

text \<open>
  The cursor that points at position \<open>k\<close> of a list of messages; none at its end.
\<close>

definition cursorAt :: "Platform \<Rightarrow> StoredMessage list \<Rightarrow> nat \<Rightarrow> jsstring option" where
  "cursorAt P L k = (if k = length L then None else nextCursorOf [toRow P (L ! k)])"

section \<open>Sample data\<close>

text \<open>Concrete inputs at which the theorems below are instantiated.\<close>

definition hiTurn :: ChatTurn where
  "hiTurn = \<lparr>role = User, content = js ''hi''\<rparr>"

definition longTurn :: ChatTurn where
  "longTurn = \<lparr>role = Ai, content = js ''a very long forty-character reply text..''\<rparr>"

definition sampleEnv :: Env where
  "sampleEnv = \<lparr>CHAT_PAGE_SIZE = 10, OPENAI_API_KEY = Some (js ''sk-test''),
     LLM_MAX_CONTEXT_TOKENS = 2, MAX_MESSAGE_CHARS = 2000\<rparr>"

definition sampleKey :: jsstring where
  "sampleKey = js ''msg:sess:k''"

definition sampleCall :: "int \<Rightarrow> real \<Rightarrow> Call" where
  "sampleCall t m = \<lparr>call_now = t, call_key = sampleKey, call_windowMs = 10, call_max = m\<rparr>"

definition okResult :: AllowResult where
  "okResult = \<lparr>allowed = True, retryAfterMs = None\<rparr>"

definition sampleSession :: jsstring where
  "sampleSession = js ''3f2c8a1e-5b7d-4c9a-8e21-0a1b2c3d4e5f''"

definition idA :: jsstring where
  "idA = js ''0a000000-0000-4000-8000-000000000001''"

definition idB :: jsstring where
  "idB = js ''0b000000-0000-4000-8000-000000000002''"

definition idC :: jsstring where
  "idC = js ''0c000000-0000-4000-8000-000000000003''"

definition idD :: jsstring where
  "idD = js ''0d000000-0000-4000-8000-000000000004''"

definition iso000 :: jsstring where
  "iso000 = js ''2025-12-28T17:52:34.000Z''"

definition iso100 :: jsstring where
  "iso100 = js ''2025-12-28T17:52:34.100Z''"

definition iso900 :: jsstring where
  "iso900 = js ''2025-12-28T17:52:34.900Z''"

definition isoNext :: jsstring where
  "isoNext = js ''2025-12-28T17:52:36.250Z''"

definition dateText :: jsstring where
  "dateText = js ''Sun Dec 28 2025 23:22:34 GMT+0530 (India Standard Time)''"

definition expandedYear :: jsstring where
  "expandedYear = js ''+010000-01-01T00:00:00.000Z''"

text \<open>
  The platform functions at the strings used below, as tables. Each entry is the value of
  the real function at that string: \<open>Date.parse\<close> of the
  \<open>Date.prototype.toString\<close> text of 17:52:34 UTC is the start of that second;
  \<open>Date.parse\<close> accepts the expanded-year form and \<open>toISOString\<close> renders that
  instant in the same form, which \<open>z.string().datetime()\<close> rejects (it wants a
  four-digit year). Outside the tables the functions answer as for a string that is
  neither a timestamp nor a uuid. On \<open>isoPlatform\<close> a row carries
  \<open>created_at\<close> as ISO text with its milliseconds.
\<close>

definition parseTable :: "jsstring \<Rightarrow> int option" where
  "parseTable s =
     (if s = iso000 then Some 1766944354000
      else if s = iso100 then Some 1766944354100
      else if s = iso900 then Some 1766944354900
      else if s = isoNext then Some 1766944356250
      else None)"

definition isoPlatform :: Platform where
  "isoPlatform =
     \<lparr>zodDatetime = (\<lambda>s. parseTable s \<noteq> None),
      zodUuid = (\<lambda>s. s \<in> set [sampleSession, idA, idB, idC, idD]),
      dateParse = (\<lambda>s. if s = dateText then Some 1766944354000
                        else if s = expandedYear then Some 253402300800000
                        else parseTable s),
      toISOString = (\<lambda>ms. if ms = 1766944354000 then iso000
                          else if ms = 1766944354100 then iso100
                          else if ms = 1766944354900 then iso900
                          else if ms = 1766944356250 then isoNext
                          else if ms = 253402300800000 then expandedYear
                          else js ''1970-01-01T00:00:00.000Z''),
      pgTimestamptz = parseTable,
      pgUuid = (\<lambda>s. if s \<in> set [sampleSession, idA, idB, idC, idD] then Some s else None),
      pgTimestampOut = (\<lambda>ms. if ms = 1766944354000 then iso000
                          else if ms = 1766944354100 then iso100
                          else if ms = 1766944354900 then iso900
                          else if ms = 1766944356250 then isoNext
                          else js ''1970-01-01T00:00:00.000Z'')\<rparr>"

text \<open>
  The same platform with \<open>created_at\<close> as the text of
  \<open>Date.prototype.toString\<close>, which has whole seconds: node-postgres hands a
  \<open>timestamptz\<close> value over as a \<open>Date\<close> unless a type parser is registered
  (db/pool.ts registers none), and the template literal that builds \<open>nextCursor\<close>
  turns a \<open>Date\<close> into this text. It is the form quoted in the comment of
  \<open>parseCursor\<close>.
\<close>

definition datePlatform :: Platform where
  "datePlatform =
     isoPlatform\<lparr>pgTimestampOut :=
       (\<lambda>ms. if 1766944354000 \<le> ms \<and> ms < 1766944355000 then dateText
             else js ''Invalid Date'')\<rparr>"

definition msgA :: StoredMessage where
  "msgA = \<lparr>stored_id = idA, stored_conversation_id = sampleSession, stored_sender = User,
            stored_text = js ''Where is my order?'', stored_created_at = 1766944354100\<rparr>"

definition msgB :: StoredMessage where
  "msgB = \<lparr>stored_id = idB, stored_conversation_id = sampleSession, stored_sender = Ai,
            stored_text = js ''It ships tomorrow.'', stored_created_at = 1766944354900\<rparr>"

definition sampleStore :: Store where
  "sampleStore =
     \<lparr>conversations = [\<lparr>conv_id = sampleSession, conv_created_at = 1766944354000\<rparr>],
      messages = [msgA, msgB]\<rparr>"

definition sampleQuery :: "jsstring option \<Rightarrow> int option \<Rightarrow> HistoryQuery" where
  "sampleQuery cursor limit =
     \<lparr>q_sessionId = Some sampleSession, q_cursor = cursor, q_limit = limit\<rparr>"

definition sampleRequest :: MessageRequest where
  "sampleRequest =
     \<lparr>req_ip = js ''127.0.0.1'', body_message = Some (js '' Any update? ''),
      body_sessionId = Some sampleSession\<rparr>"

definition failingIo :: SendIo where
  "failingIo =
     \<lparr>ensure_conn = True, ensure_dbNow = 1766944356000, recent_conn = True,
      user_insert = \<lparr>ins_conn = True, ins_uuid = idC, ins_clock = 1766944356250\<rparr>,
      invoke = (\<lambda>msgs. Inl Timeout),
      ai_insert = \<lparr>ins_conn = True, ins_uuid = idA, ins_clock = 1766944356250\<rparr>\<rparr>"

definition msgC :: StoredMessage where
  "msgC = \<lparr>stored_id = idC, stored_conversation_id = sampleSession, stored_sender = User,
            stored_text = js ''Any update?'', stored_created_at = 1766944356250\<rparr>"

text \<open>
  A configuration with room for the whole sample conversation, a completion call that
  answers the prompt made of the two stored turns and the live message (and fails on any
  other prompt), and a run in which the read of the recent messages fails.
\<close>

definition wideEnv :: Env where
  "wideEnv = sampleEnv\<lparr>LLM_MAX_CONTEXT_TOKENS := 2000\<rparr>"

definition replyingIo :: SendIo where
  "replyingIo =
     \<lparr>ensure_conn = True, ensure_dbNow = 1766944356000, recent_conn = True,
      user_insert = \<lparr>ins_conn = True, ins_uuid = idC, ins_clock = 1766944356250\<rparr>,
      invoke = (\<lambda>msgs. if msgs = [SystemMessage (js ''sys''),
                                    HumanMessage (js ''Where is my order?''),
                                    AIMessage (js ''It ships tomorrow.''),
                                    HumanMessage (js ''Any update?'')]
                        then Inr (Some (js '' Soon. '')) else Inl ProviderError),
      ai_insert = \<lparr>ins_conn = True, ins_uuid = idD, ins_clock = 1766944356250\<rparr>\<rparr>"

definition readFailingIo :: SendIo where
  "readFailingIo = failingIo\<lparr>recent_conn := False\<rparr>"

definition msgD :: StoredMessage where
  "msgD = \<lparr>stored_id = idD, stored_conversation_id = sampleSession, stored_sender = Ai,
            stored_text = js ''Soon.'', stored_created_at = 1766944356250\<rparr>"

section \<open>Properties of the token budget\<close>

lemma estimateTokens_div: "estimateTokens m = (int (length (content m)) + 3) div 4"
proof -
  have "\<lceil>real n / 4\<rceil> = (int n + 3) div 4" for n :: nat
  proof -
    have "\<lceil>real n / 4\<rceil> = \<lceil>real_of_int (int n) / real_of_int 4\<rceil>" by simp
    also have "\<dots> = - (- int n div 4)" by (rule ceiling_divide_eq_div)
    also have "\<dots> = (int n + 3) div 4" by presburger
    finally show ?thesis .
  qed
  then show ?thesis by (simp add: estimateTokens_def)
qed

lemma estimateTokens_nonneg: "0 \<le> estimateTokens m"
  by (simp add: estimateTokens_def)

lemma turnsCost_nonneg: "0 \<le> turnsCost ms"
  by (induction ms) (simp_all add: turnsCost_def estimateTokens_nonneg)

lemma turnsCost_Cons: "turnsCost (m # ms) = estimateTokens m + turnsCost ms"
  by (simp add: turnsCost_def)

lemma turnsCost_append: "turnsCost (xs @ ys) = turnsCost xs + turnsCost ys"
  by (simp add: turnsCost_def)

lemma turnsCost_take_mono: "i \<le> j \<Longrightarrow> turnsCost (take i xs) \<le> turnsCost (take j xs)"
proof -
  assume "i \<le> j"
  then have "take j xs = take i xs @ take (j - i) (drop i xs)"
    by (metis le_add_diff_inverse take_add)
  then show ?thesis using turnsCost_nonneg[of "take (j - i) (drop i xs)"]
    by (simp add: turnsCost_append)
qed

lemma budgetLoop_spec:
  "budgetLoop M xs sel used = (sel', used') \<Longrightarrow>
     \<exists>k \<le> length xs. sel' = sel @ take k xs \<and> used' = used + turnsCost (take k xs)
       \<and> (0 < k \<longrightarrow> used' \<le> M)
       \<and> (k < length xs \<longrightarrow> M < used + turnsCost (take (Suc k) xs))"
proof (induction xs arbitrary: sel used)
  case Nil
  then show ?case by (simp add: turnsCost_def)
next
  case (Cons m rest)
  show ?case
  proof (cases "used + estimateTokens m > M")
    case True
    with Cons.prems have "sel' = sel" "used' = used" by simp_all
    with True show ?thesis
      by (intro exI[of _ 0]) (simp add: turnsCost_def)
  next
    case False
    with Cons.prems have "budgetLoop M rest (sel @ [m]) (used + estimateTokens m) = (sel', used')"
      by simp
    from Cons.IH[OF this] obtain k where k: "k \<le> length rest"
      "sel' = (sel @ [m]) @ take k rest"
      "used' = used + estimateTokens m + turnsCost (take k rest)"
      "0 < k \<longrightarrow> used' \<le> M"
      "k < length rest \<longrightarrow> M < used + estimateTokens m + turnsCost (take (Suc k) rest)"
      by blast
    have "used' \<le> M"
    proof (cases "k = 0")
      case True
      with k(3) False show ?thesis by (simp add: turnsCost_def)
    next
      case False
      with k(4) show ?thesis by simp
    qed
    with k show ?thesis
      by (intro exI[of _ "Suc k"]) (auto simp: turnsCost_Cons)
  qed
qed

lemma take_spec:
  assumes "r = takeRecentWithinTokenBudget M xs"
  shows "\<exists>k \<le> length xs. selectedNewestToOldest r = take k xs \<and> usedTokens r = turnsCost (take k xs)
       \<and> (0 < k \<longrightarrow> usedTokens r \<le> M)
       \<and> (k < length xs \<longrightarrow> M < turnsCost (take (Suc k) xs))"
proof -
  obtain sel' used' where b: "budgetLoop M xs [] 0 = (sel', used')" by force
  from budgetLoop_spec[OF b] assms b show ?thesis
    by (simp add: takeRecentWithinTokenBudget_def)
qed


lemma take_spec_len:
  "selectedNewestToOldest (takeRecentWithinTokenBudget M xs)
      = take (length (selectedNewestToOldest (takeRecentWithinTokenBudget M xs))) xs
   \<and> length (selectedNewestToOldest (takeRecentWithinTokenBudget M xs)) \<le> length xs
   \<and> usedTokens (takeRecentWithinTokenBudget M xs)
      = turnsCost (selectedNewestToOldest (takeRecentWithinTokenBudget M xs))
   \<and> (selectedNewestToOldest (takeRecentWithinTokenBudget M xs) \<noteq> [] \<longrightarrow>
        turnsCost (selectedNewestToOldest (takeRecentWithinTokenBudget M xs)) \<le> M)
   \<and> (length (selectedNewestToOldest (takeRecentWithinTokenBudget M xs)) < length xs \<longrightarrow>
        M < turnsCost (take (Suc (length (selectedNewestToOldest (takeRecentWithinTokenBudget M xs)))) xs))"
proof -
  from take_spec[of _ M xs, OF refl] obtain k where k: "k \<le> length xs"
    "selectedNewestToOldest (takeRecentWithinTokenBudget M xs) = take k xs"
    "usedTokens (takeRecentWithinTokenBudget M xs) = turnsCost (take k xs)"
    "0 < k \<longrightarrow> usedTokens (takeRecentWithinTokenBudget M xs) \<le> M"
    "k < length xs \<longrightarrow> M < turnsCost (take (Suc k) xs)"
    by blast
  from k(1,2) have len: "length (selectedNewestToOldest (takeRecentWithinTokenBudget M xs)) = k"
    by simp
  from k(1,2) have "selectedNewestToOldest (takeRecentWithinTokenBudget M xs) \<noteq> [] \<longrightarrow> 0 < k"
    by auto
  with k len show ?thesis by simp
qed

text \<open>
  Claim C4. \<open>takeRecentWithinTokenBudget\<close> costs a turn
  \<open>ceil(contentLength / 4)\<close>, walks the input from the newest turn and accumulates
  greedily: the selection is the prefix of the input whose length is the number of turns
  selected, every selected turn kept the running total within the budget when it was
  added, and the first turn left out would have pushed the total over the budget. At the
  boundary, a budget equal to the running total through turn \<open>k\<close> includes turn
  \<open>k\<close>, and a budget one unit less excludes it.
\<close>

theorem budget_greedy_prefix:
  "estimateTokens m = (int (length (content m)) + 3) div 4
   \<and> selectedNewestToOldest (takeRecentWithinTokenBudget M xs)
        = take (length (selectedNewestToOldest (takeRecentWithinTokenBudget M xs))) xs
   \<and> (\<forall>j. 0 < j \<and> j \<le> length (selectedNewestToOldest (takeRecentWithinTokenBudget M xs))
          \<longrightarrow> turnsCost (take j xs) \<le> M)
   \<and> (length (selectedNewestToOldest (takeRecentWithinTokenBudget M xs)) < length xs \<longrightarrow>
        M < turnsCost (take (Suc (length (selectedNewestToOldest (takeRecentWithinTokenBudget M xs)))) xs))
   \<and> (k < length xs \<longrightarrow>
        k < length (selectedNewestToOldest
              (takeRecentWithinTokenBudget (turnsCost (take (Suc k) xs)) xs))
        \<and> length (selectedNewestToOldest
              (takeRecentWithinTokenBudget (turnsCost (take (Suc k) xs) - 1) xs)) \<le> k)"
proof -
  let ?sel = "\<lambda>B. selectedNewestToOldest (takeRecentWithinTokenBudget B xs)"
  note s = take_spec_len[of M xs]
  have fits: "\<forall>j. 0 < j \<and> j \<le> length (?sel M) \<longrightarrow> turnsCost (take j xs) \<le> M"
  proof (intro allI impI)
    fix j assume j: "0 < j \<and> j \<le> length (?sel M)"
    then have ne: "?sel M \<noteq> []" by auto
    from j turnsCost_take_mono[of j "length (?sel M)" xs]
    have "turnsCost (take j xs) \<le> turnsCost (take (length (?sel M)) xs)" by simp
    also have "\<dots> = turnsCost (?sel M)" using s by simp
    also have "\<dots> \<le> M" using s ne by simp
    finally show "turnsCost (take j xs) \<le> M" .
  qed
  have bnd: "k < length xs \<longrightarrow>
        k < length (?sel (turnsCost (take (Suc k) xs)))
        \<and> length (?sel (turnsCost (take (Suc k) xs) - 1)) \<le> k"
  proof
    assume k: "k < length xs"
    let ?B = "turnsCost (take (Suc k) xs)"
    have incl: "k < length (?sel ?B)"
    proof (rule ccontr)
      assume "\<not> k < length (?sel ?B)"
      then have le: "length (?sel ?B) \<le> k" by simp
      with k have "length (?sel ?B) < length xs" by simp
      with take_spec_len[of ?B xs] have "?B < turnsCost (take (Suc (length (?sel ?B))) xs)" by simp
      moreover from le have "turnsCost (take (Suc (length (?sel ?B))) xs) \<le> ?B"
        by (intro turnsCost_take_mono) simp
      ultimately show False by simp
    qed
    have excl: "length (?sel (?B - 1)) \<le> k"
    proof (rule ccontr)
      assume "\<not> length (?sel (?B - 1)) \<le> k"
      then have gt: "Suc k \<le> length (?sel (?B - 1))" by simp
      then have ne: "?sel (?B - 1) \<noteq> []" by auto
      from gt have "?B \<le> turnsCost (take (length (?sel (?B - 1))) xs)"
        by (intro turnsCost_take_mono)
      also have "\<dots> = turnsCost (?sel (?B - 1))" using take_spec_len[of "?B - 1" xs] by simp
      also have "\<dots> \<le> ?B - 1" using take_spec_len[of "?B - 1" xs] ne by simp
      finally show False by simp
    qed
    from incl excl show "k < length (?sel ?B) \<and> length (?sel (?B - 1)) \<le> k" ..
  qed
  from s fits bnd estimateTokens_div[of m] show ?thesis by blast
qed

lemma sample_costs: "estimateTokens hiTurn = 1" "estimateTokens longTurn = 10"
  by (simp_all add: estimateTokens_div hiTurn_def longTurn_def js_def)

lemma sample_runs:
  "takeRecentWithinTokenBudget 10 [hiTurn, longTurn] = \<lparr>selectedNewestToOldest = [hiTurn], usedTokens = 1\<rparr>"
  "takeRecentWithinTokenBudget 11 [hiTurn, longTurn] = \<lparr>selectedNewestToOldest = [hiTurn, longTurn], usedTokens = 11\<rparr>"
  by (simp_all add: takeRecentWithinTokenBudget_def sample_costs)

theorem budget_greedy_prefix_witness:
  "selectedNewestToOldest (takeRecentWithinTokenBudget 10 [hiTurn, longTurn]) = [hiTurn]
   \<and> turnsCost (take 1 [hiTurn, longTurn]) \<le> 10
   \<and> 10 < turnsCost (take 2 [hiTurn, longTurn])
   \<and> 1 < length (selectedNewestToOldest (takeRecentWithinTokenBudget 11 [hiTurn, longTurn]))
   \<and> length (selectedNewestToOldest (takeRecentWithinTokenBudget 10 [hiTurn, longTurn])) \<le> 1"
  using budget_greedy_prefix[of hiTurn 10 "[hiTurn, longTurn]" 1]
  by (simp add: sample_runs sample_costs turnsCost_def)

text \<open>
  Claim C10 as stated fails for a negative budget: nothing is selected and
  \<open>usedTokens\<close> is 0, which exceeds the budget \<open>-1\<close>.
\<close>

theorem used_exceeds_negative_budget:
  "\<not> usedTokens (takeRecentWithinTokenBudget (- 1) []) \<le> - 1"
  by (simp add: takeRecentWithinTokenBudget_def)

text \<open>
  Claim C10, amended. \<open>usedTokens\<close> is the sum of the costs of exactly the selected
  turns; for a budget of at least 0 it never exceeds the budget; for a negative budget
  the selection is empty and \<open>usedTokens\<close> is 0.
\<close>

theorem used_tokens_sum_and_bound:
  "usedTokens (takeRecentWithinTokenBudget M xs)
      = turnsCost (selectedNewestToOldest (takeRecentWithinTokenBudget M xs))
   \<and> (0 \<le> M \<longrightarrow> usedTokens (takeRecentWithinTokenBudget M xs) \<le> M)
   \<and> (M < 0 \<longrightarrow> selectedNewestToOldest (takeRecentWithinTokenBudget M xs) = []
          \<and> usedTokens (takeRecentWithinTokenBudget M xs) = 0)"
proof -
  note s = take_spec_len[of M xs]
  let ?sel = "selectedNewestToOldest (takeRecentWithinTokenBudget M xs)"
  have a: "0 \<le> M \<longrightarrow> usedTokens (takeRecentWithinTokenBudget M xs) \<le> M"
  proof (cases "?sel = []")
    case True
    with s show ?thesis by (simp add: turnsCost_def)
  next
    case False
    with s show ?thesis by simp
  qed
  have b: "M < 0 \<longrightarrow> ?sel = []"
  proof
    assume neg: "M < 0"
    show "?sel = []"
    proof (rule ccontr)
      assume "?sel \<noteq> []"
      with s have "turnsCost ?sel \<le> M" by simp
      with neg turnsCost_nonneg[of ?sel] show False by simp
    qed
  qed
  from s a b show ?thesis by (auto simp: turnsCost_def)
qed

theorem used_tokens_sum_and_bound_witness:
  "usedTokens (takeRecentWithinTokenBudget 10 [hiTurn, longTurn]) = turnsCost [hiTurn]
   \<and> usedTokens (takeRecentWithinTokenBudget 10 [hiTurn, longTurn]) \<le> 10
   \<and> selectedNewestToOldest (takeRecentWithinTokenBudget (- 1) [hiTurn, longTurn]) = []
   \<and> usedTokens (takeRecentWithinTokenBudget (- 1) [hiTurn, longTurn]) = 0"
  using used_tokens_sum_and_bound[of 10 "[hiTurn, longTurn]"]
    used_tokens_sum_and_bound[of "- 1" "[hiTurn, longTurn]"]
  by (simp add: sample_runs turnsCost_def)

lemma first_turn_fits:
  assumes "estimateTokens m \<le> M"
  shows "selectedNewestToOldest (takeRecentWithinTokenBudget M (m # rest)) \<noteq> []
     \<and> hd (selectedNewestToOldest (takeRecentWithinTokenBudget M (m # rest))) = m"
proof -
  let ?sel = "selectedNewestToOldest (takeRecentWithinTokenBudget M (m # rest))"
  note s = take_spec_len[of M "m # rest"]
  have "0 < length ?sel"
  proof (rule ccontr)
    assume "\<not> 0 < length ?sel"
    then have z: "length ?sel = 0" by simp
    with s have "M < turnsCost (take (Suc 0) (m # rest))" by simp
    with assms show False by (simp add: turnsCost_def)
  qed
  moreover from s have "?sel = take (length ?sel) (m # rest)" by simp
  ultimately show ?thesis by (cases "length ?sel") (auto simp: take_Suc_Cons)
qed

lemma first_turn_too_big:
  assumes "M < estimateTokens m"
  shows "takeRecentWithinTokenBudget M (m # rest) = \<lparr>selectedNewestToOldest = [], usedTokens = 0\<rparr>"
  using assms by (simp add: takeRecentWithinTokenBudget_def)

section \<open>Properties of the rate limiter\<close>

lemma runRequests_snd_Cons:
  "snd (runRequests bs (c # cs)) =
     \<lparr>call = c, opened = opensWindow bs (call_now c) (call_key c),
      outcome = snd (allowRequest bs (call_now c) (call_key c) (call_windowMs c) (call_max c))\<rparr>
     # snd (runRequests (fst (allowRequest bs (call_now c) (call_key c) (call_windowMs c) (call_max c))) cs)"
  by (simp split: prod.splits)

lemma runRequests_fst_Cons:
  "fst (runRequests bs (c # cs)) =
     fst (runRequests (fst (allowRequest bs (call_now c) (call_key c) (call_windowMs c) (call_max c))) cs)"
  by (simp split: prod.splits)

lemma allowRequest_other:
  "k' \<noteq> k \<Longrightarrow> fst (allowRequest bs now k' w M) k = bs k"
  by (simp add: allowRequest_def split: option.splits)

lemma allowRequest_local:
  "bs k = bs' k \<Longrightarrow>
     snd (allowRequest bs now k w M) = snd (allowRequest bs' now k w M)
     \<and> fst (allowRequest bs now k w M) k = fst (allowRequest bs' now k w M) k"
  by (simp add: allowRequest_def split: option.splits)

lemma opensWindow_local: "bs k = bs' k \<Longrightarrow> opensWindow bs now k = opensWindow bs' now k"
  by (simp add: opensWindow_def)

lemma runRequests_project:
  "bs k = bs' k \<Longrightarrow>
     forKey k (snd (runRequests bs cs))
       = snd (runRequests bs' (filter (\<lambda>c. call_key c = k) cs))"
proof (induction cs arbitrary: bs bs')
  case Nil
  then show ?case by (simp add: forKey_def)
next
  case (Cons c cs)
  let ?b1 = "fst (allowRequest bs (call_now c) (call_key c) (call_windowMs c) (call_max c))"
  show ?case
  proof (cases "call_key c = k")
    case True
    let ?b2 = "fst (allowRequest bs' (call_now c) (call_key c) (call_windowMs c) (call_max c))"
    from allowRequest_local[of bs k bs' "call_now c" "call_windowMs c" "call_max c"] Cons.prems True
    have eq: "snd (allowRequest bs (call_now c) (call_key c) (call_windowMs c) (call_max c))
         = snd (allowRequest bs' (call_now c) (call_key c) (call_windowMs c) (call_max c))"
      "?b1 k = ?b2 k" by simp_all
    from Cons.IH[of ?b1 ?b2] eq(2)
    have "forKey k (snd (runRequests ?b1 cs)) = snd (runRequests ?b2 (filter (\<lambda>c. call_key c = k) cs))" .
    with True eq(1) opensWindow_local[of bs k bs' "call_now c"] Cons.prems show ?thesis
      by (simp add: forKey_def runRequests_snd_Cons del: runRequests.simps(2))
  next
    case False
    from allowRequest_other[OF False, of bs "call_now c" "call_windowMs c" "call_max c"] Cons.prems
    have "?b1 k = bs' k" by simp
    from Cons.IH[of ?b1 bs'] this False show ?thesis
      by (simp add: forKey_def runRequests_snd_Cons del: runRequests.simps(2))
  qed
qed

lemma runRequests_snd_append:
  "snd (runRequests bs (xs @ ys)) =
     snd (runRequests bs xs) @ snd (runRequests (fst (runRequests bs xs)) ys)"
  by (induction xs arbitrary: bs)
     (simp_all add: runRequests_snd_Cons runRequests_fst_Cons del: runRequests.simps(2))

lemma runRequests_fst_append:
  "fst (runRequests bs (xs @ ys)) = fst (runRequests (fst (runRequests bs xs)) ys)"
  by (induction xs arbitrary: bs)
     (simp_all add: runRequests_fst_Cons del: runRequests.simps(2))

lemma runRequests_length: "length (snd (runRequests bs cs)) = length cs"
  by (induction cs arbitrary: bs)
     (simp_all add: runRequests_snd_Cons del: runRequests.simps(2))

text \<open>Inside an open window: calls that do not open a window.\<close>

text \<open>
  Inside an open window: calls that do not open a window. The call at position \<open>i\<close> is
  allowed exactly when the counter it meets, the entry's count plus \<open>i\<close>, is below the
  limit.
\<close>

lemma inside_window:
  assumes "\<forall>c \<in> set cs. call_key c = k \<and> call_max c = M"
    and "bs k = Some e"
    and "\<forall>r \<in> set (snd (runRequests bs cs)). \<not> opened r"
  shows "(\<forall>i < length cs. allowed (outcome (snd (runRequests bs cs) ! i))
             \<longleftrightarrow> real_of_int (count e + int i) < M)
     \<and> int (allowedCount (snd (runRequests bs cs)))
          = min (int (length cs)) (max 0 (\<lceil>M\<rceil> - count e))
     \<and> (\<forall>d \<in> set (snd (runRequests bs cs)). \<not> allowed (outcome d) \<longrightarrow>
           retryAfterMs (outcome d) = Some (resetAt e - call_now (call d)))"
  using assms
proof (induction cs arbitrary: bs e)
  case Nil
  then show ?case by (simp add: allowedCount_def)
next
  case (Cons c cs)
  have ck: "call_key c = k" "call_max c = M" using Cons.prems(1) by simp_all
  let ?a = "allowRequest bs (call_now c) k (call_windowMs c) M"
  let ?rest = "snd (runRequests (fst ?a) cs)"
  have recs: "snd (runRequests bs (c # cs)) =
      \<lparr>call = c, opened = opensWindow bs (call_now c) k, outcome = snd ?a\<rparr> # ?rest"
    using ck by (simp add: runRequests_snd_Cons del: runRequests.simps(2))
  from Cons.prems(3) recs have nopen: "\<not> opensWindow bs (call_now c) k"
    "\<forall>r \<in> set ?rest. \<not> opened r"
    by simp_all
  from nopen(1) Cons.prems(2) have live: "\<not> resetAt e \<le> call_now c"
    by (simp add: opensWindow_def)
  have all: "\<forall>c \<in> set cs. call_key c = k \<and> call_max c = M" using Cons.prems(1) by simp
  have ceil: "real_of_int z < M \<longleftrightarrow> z < \<lceil>M\<rceil>" for z by (simp add: less_ceiling_iff)
  show ?case
  proof (cases "real_of_int (count e) \<ge> M")
    case True
    with live Cons.prems(2) have st: "fst ?a = bs"
      "snd ?a = \<lparr>allowed = False, retryAfterMs = Some (resetAt e - call_now c)\<rparr>"
      by (simp_all add: allowRequest_def)
    from Cons.IH[of bs e] all Cons.prems(2) st nopen(2)
    have ih: "\<forall>i < length cs. allowed (outcome (snd (runRequests bs cs) ! i))
             \<longleftrightarrow> real_of_int (count e + int i) < M"
      "int (allowedCount (snd (runRequests bs cs)))
          = min (int (length cs)) (max 0 (\<lceil>M\<rceil> - count e))"
      "\<forall>d \<in> set (snd (runRequests bs cs)). \<not> allowed (outcome d) \<longrightarrow>
          retryAfterMs (outcome d) = Some (resetAt e - call_now (call d))"
      by simp_all
    from True have full: "\<lceil>M\<rceil> \<le> count e" using ceil[of "count e"] by simp
    have idx: "\<forall>i < length (c # cs). allowed (outcome (snd (runRequests bs (c # cs)) ! i))
             \<longleftrightarrow> real_of_int (count e + int i) < M"
    proof (intro allI impI)
      fix i assume "i < length (c # cs)"
      have no: "\<not> real_of_int (count e + int i) < M" using full ceil[of "count e + int i"] by simp
      show "allowed (outcome (snd (runRequests bs (c # cs)) ! i))
             \<longleftrightarrow> real_of_int (count e + int i) < M"
      proof (cases i)
        case 0
        with no recs st show ?thesis by simp
      next
        case (Suc j)
        with \<open>i < length (c # cs)\<close> have j: "j < length cs" by simp
        have "\<not> real_of_int (count e + int j) < M" using full ceil[of "count e + int j"] by simp
        with ih(1) j have "\<not> allowed (outcome (snd (runRequests bs cs) ! j))" by simp
        with no recs st Suc show ?thesis by simp
      qed
    qed
    have cnt: "int (allowedCount (snd (runRequests bs (c # cs))))
          = min (int (length (c # cs))) (max 0 (\<lceil>M\<rceil> - count e))"
      using recs st ih(2) full by (simp add: allowedCount_def)
    have rt: "\<forall>d \<in> set (snd (runRequests bs (c # cs))). \<not> allowed (outcome d) \<longrightarrow>
           retryAfterMs (outcome d) = Some (resetAt e - call_now (call d))"
      using recs st ih(3) by simp
    from idx cnt rt show ?thesis by blast
  next
    case False
    with live Cons.prems(2) have st: "fst ?a = bs(k \<mapsto> e\<lparr>count := count e + 1\<rparr>)"
      "snd ?a = \<lparr>allowed = True, retryAfterMs = None\<rparr>"
      by (simp_all add: allowRequest_def)
    have b1k: "(fst ?a) k = Some (e\<lparr>count := count e + 1\<rparr>)" using st by simp
    from Cons.IH[of "fst ?a" "e\<lparr>count := count e + 1\<rparr>"] all b1k nopen(2)
    have ih: "\<forall>i < length cs. allowed (outcome (?rest ! i))
             \<longleftrightarrow> real_of_int (count e + 1 + int i) < M"
      "int (allowedCount ?rest) = min (int (length cs)) (max 0 (\<lceil>M\<rceil> - (count e + 1)))"
      "\<forall>d \<in> set ?rest. \<not> allowed (outcome d) \<longrightarrow>
         retryAfterMs (outcome d) = Some (resetAt e - call_now (call d))"
      by simp_all
    from False have room: "count e < \<lceil>M\<rceil>" using ceil[of "count e"] by simp
    have idx: "\<forall>i < length (c # cs). allowed (outcome (snd (runRequests bs (c # cs)) ! i))
             \<longleftrightarrow> real_of_int (count e + int i) < M"
    proof (intro allI impI)
      fix i assume "i < length (c # cs)"
      show "allowed (outcome (snd (runRequests bs (c # cs)) ! i))
             \<longleftrightarrow> real_of_int (count e + int i) < M"
      proof (cases i)
        case 0
        with False recs st show ?thesis by simp
      next
        case (Suc j)
        with \<open>i < length (c # cs)\<close> have j: "j < length cs" by simp
        from ih(1) j have "allowed (outcome (?rest ! j))
            \<longleftrightarrow> real_of_int (count e + 1 + int j) < M" by blast
        moreover have "snd (runRequests bs (c # cs)) ! i = ?rest ! j"
          by (simp only: recs Suc nth_Cons_Suc)
        moreover have "count e + 1 + int j = count e + int i" using Suc by simp
        ultimately show ?thesis by (simp only:)
      qed
    qed
    have cnt: "int (allowedCount (snd (runRequests bs (c # cs))))
          = min (int (length (c # cs))) (max 0 (\<lceil>M\<rceil> - count e))"
      using recs st ih(2) room by (simp add: allowedCount_def)
    have rt: "\<forall>d \<in> set (snd (runRequests bs (c # cs))). \<not> allowed (outcome d) \<longrightarrow>
           retryAfterMs (outcome d) = Some (resetAt e - call_now (call d))"
      using recs st ih(3) by simp
    from idx cnt rt show ?thesis by blast
  qed
qed

lemma opening_call:
  assumes "opensWindow bs now k"
  shows "allowRequest bs now k w M =
     (bs(k \<mapsto> \<lparr>count = 1, resetAt = now + w\<rparr>), \<lparr>allowed = True, retryAfterMs = None\<rparr>)"
  using assms by (auto simp: allowRequest_def opensWindow_def split: option.splits)

text \<open>One window instance in a run of calls that all have key k and limit M.\<close>

lemma window_instance_single:
  assumes all: "\<forall>c \<in> set cs. call_key c = k \<and> call_max c = M"
    and dec: "snd (runRequests bs cs) = pre @ r # seg @ post"
    and op: "opened r" and nop: "\<forall>x \<in> set seg. \<not> opened x"
  shows "allowed (outcome r)
     \<and> (\<forall>i < length seg. allowed (outcome (seg ! i)) \<longleftrightarrow> real (Suc i) < M)
     \<and> int (allowedCount (r # seg)) = min (int (length (r # seg))) (max 1 \<lceil>M\<rceil>)
     \<and> (\<forall>d \<in> set seg. \<not> allowed (outcome d) \<longrightarrow>
           retryAfterMs (outcome d)
             = Some (call_now (call r) + call_windowMs (call r) - call_now (call d)))"
proof -
  define c1 where "c1 = take (length pre) cs"
  define c where "c = cs ! length pre"
  define c2 where "c2 = take (length seg) (drop (Suc (length pre)) cs)"
  define c3 where "c3 = drop (Suc (length pre) + length seg) cs"
  have len: "length cs = length pre + Suc (length seg + length post)"
    using runRequests_length[of bs cs] dec by simp
  have cs: "cs = c1 @ c # c2 @ c3"
    unfolding c1_def c_def c2_def c3_def using len
    by (metis (no_types, lifting) Cons_nth_drop_Suc add.commute add_Suc_right append_take_drop_id
        drop_drop less_add_Suc1)
  let ?b1 = "fst (runRequests bs c1)"
  let ?a = "allowRequest ?b1 (call_now c) (call_key c) (call_windowMs c) (call_max c)"
  let ?b2 = "fst ?a"
  have l1: "length (snd (runRequests bs c1)) = length pre"
    using runRequests_length[of bs c1] len by (simp add: c1_def)
  have l2: "length (snd (runRequests ?b2 c2)) = length seg"
    using runRequests_length[of ?b2 c2] len by (simp add: c2_def)
  have lc2: "length c2 = length seg" using len by (simp add: c2_def)
  have "snd (runRequests bs cs) = snd (runRequests bs c1) @
      \<lparr>call = c, opened = opensWindow ?b1 (call_now c) (call_key c), outcome = snd ?a\<rparr>
      # snd (runRequests ?b2 c2) @ snd (runRequests (fst (runRequests ?b2 c2)) c3)"
    by (simp add: cs runRequests_snd_append runRequests_snd_Cons runRequests_fst_Cons
        del: runRequests.simps(2))
  with dec l1 l2 have parts: "r = \<lparr>call = c, opened = opensWindow ?b1 (call_now c) (call_key c), outcome = snd ?a\<rparr>"
    "seg = snd (runRequests ?b2 c2)"
    by simp_all
  have ck: "call_key c = k" "call_max c = M" using all cs by simp_all
  from op parts(1) ck have "opensWindow ?b1 (call_now c) k" by simp
  from opening_call[OF this, of "call_windowMs c" M] ck
  have a: "?a = (?b1(k \<mapsto> \<lparr>count = 1, resetAt = call_now c + call_windowMs c\<rparr>),
       \<lparr>allowed = True, retryAfterMs = None\<rparr>)" by simp
  then have b2k: "?b2 k = Some \<lparr>count = 1, resetAt = call_now c + call_windowMs c\<rparr>" by simp
  have all2: "\<forall>c \<in> set c2. call_key c = k \<and> call_max c = M" using all cs by simp
  from inside_window[of c2 k M ?b2 "\<lparr>count = 1, resetAt = call_now c + call_windowMs c\<rparr>"]
    all2 b2k nop parts(2) lc2
  have in_w: "\<forall>i < length seg. allowed (outcome (seg ! i)) \<longleftrightarrow> real_of_int (1 + int i) < M"
    "int (allowedCount seg) = min (int (length seg)) (max 0 (\<lceil>M\<rceil> - 1))"
    "\<forall>d \<in> set seg. \<not> allowed (outcome d) \<longrightarrow>
        retryAfterMs (outcome d) = Some (call_now c + call_windowMs c - call_now (call d))"
    by simp_all
  have r_ok: "allowed (outcome r)" using parts(1) a by simp
  have idx: "\<forall>i < length seg. allowed (outcome (seg ! i)) \<longleftrightarrow> real (Suc i) < M"
  proof (intro allI impI)
    fix i assume i: "i < length seg"
    have "real_of_int (1 + int i) = real (Suc i)" by simp
    with in_w(1) i show "allowed (outcome (seg ! i)) \<longleftrightarrow> real (Suc i) < M" by metis
  qed
  have "int (allowedCount (r # seg)) = 1 + int (allowedCount seg)"
    using r_ok by (simp add: allowedCount_def)
  with in_w(2) have cnt: "int (allowedCount (r # seg)) = min (int (length (r # seg))) (max 1 \<lceil>M\<rceil>)"
    by simp
  from r_ok idx cnt in_w(3) parts(1) show ?thesis by simp
qed

text \<open>
  Claim C5 as stated fails for \<open>maxRequests = 0\<close>: the call that opens the window is
  allowed, one more than the limit.
\<close>

theorem zero_limit_still_allows_one:
  "\<not> int (allowedCount (snd (runRequests Map.empty [sampleCall 0 0]))) \<le> 0"
  by (simp add: sampleCall_def allowRequest_def allowedCount_def)

text \<open>
  Claim C5, amended. Take any run of calls on the shared map in which every call for key
  \<open>k\<close> uses the finite limit \<open>M\<close>, and any window instance of \<open>k\<close> in it: a
  call \<open>r\<close> that opens a window, followed by the calls \<open>seg\<close> for \<open>k\<close> up to
  the next opening. The opening call is allowed and counting starts over with it, whatever
  the windows before: the call after it that meets the counter \<open>i + 1\<close> is allowed
  exactly when \<open>i + 1 < M\<close>. So the allowed calls of the window are its first
  \<open>max 1 \<lceil>M\<rceil>\<close> (all of them when it has fewer): at most \<open>max 1 M\<close> for a
  whole \<open>M\<close>. A denied call reports the milliseconds from its clock reading to the
  window's reset time. For a single call: one that opens a window sets the counter to 1
  and the reset time to now plus the window length; a denial reports the time remaining
  on the current entry.
\<close>

theorem window_allows_at_most_max:
  assumes "\<forall>c \<in> set cs. call_key c = k \<longrightarrow> call_max c = M"
    and "forKey k (snd (runRequests bs cs)) = pre @ r # seg @ post"
    and "opened r" and "\<forall>x \<in> set seg. \<not> opened x"
  shows "allowed (outcome r)
     \<and> (\<forall>i < length seg. allowed (outcome (seg ! i)) \<longleftrightarrow> real (Suc i) < M)
     \<and> int (allowedCount (r # seg)) = min (int (length (r # seg))) (max 1 \<lceil>M\<rceil>)
     \<and> int (allowedCount (r # seg)) \<le> max 1 \<lceil>M\<rceil>
     \<and> (M \<in> \<int> \<longrightarrow> real (allowedCount (r # seg)) \<le> max 1 M)
     \<and> (\<forall>d \<in> set seg. \<not> allowed (outcome d) \<longrightarrow>
           retryAfterMs (outcome d)
             = Some (call_now (call r) + call_windowMs (call r) - call_now (call d)))
     \<and> (opensWindow bs0 now0 k0 \<longrightarrow>
           fst (allowRequest bs0 now0 k0 w0 M0) k0 = Some \<lparr>count = 1, resetAt = now0 + w0\<rparr>)
     \<and> (\<not> allowed (snd (allowRequest bs0 now0 k0 w0 M0)) \<longrightarrow>
           (\<exists>e. bs0 k0 = Some e \<and> now0 < resetAt e
              \<and> retryAfterMs (snd (allowRequest bs0 now0 k0 w0 M0)) = Some (resetAt e - now0)))"
proof -
  let ?cs = "filter (\<lambda>c. call_key c = k) cs"
  have "forKey k (snd (runRequests bs cs)) = snd (runRequests bs ?cs)"
    by (rule runRequests_project) simp
  with assms(2) have dec: "snd (runRequests bs ?cs) = pre @ r # seg @ post" by simp
  have all: "\<forall>c \<in> set ?cs. call_key c = k \<and> call_max c = M"
    using assms(1) by simp
  from window_instance_single[OF all dec assms(3,4)]
  have w: "allowed (outcome r)"
    "\<forall>i < length seg. allowed (outcome (seg ! i)) \<longleftrightarrow> real (Suc i) < M"
    "int (allowedCount (r # seg)) = min (int (length (r # seg))) (max 1 \<lceil>M\<rceil>)"
    "\<forall>d \<in> set seg. \<not> allowed (outcome d) \<longrightarrow>
           retryAfterMs (outcome d)
             = Some (call_now (call r) + call_windowMs (call r) - call_now (call d))"
    by blast+
  from w(3) have le: "int (allowedCount (r # seg)) \<le> max 1 \<lceil>M\<rceil>" by simp
  have whole: "M \<in> \<int> \<longrightarrow> real (allowedCount (r # seg)) \<le> max 1 M"
  proof
    assume "M \<in> \<int>"
    then obtain z where z: "M = real_of_int z" by (auto elim: Ints_cases)
    with le have "int (allowedCount (r # seg)) \<le> max 1 z" by simp
    then have "real_of_int (int (allowedCount (r # seg))) \<le> real_of_int (max 1 z)"
      by (simp only: of_int_le_iff)
    with z show "real (allowedCount (r # seg)) \<le> max 1 M" by (simp add: max_def split: if_splits)
  qed
  have reset: "opensWindow bs0 now0 k0 \<longrightarrow>
      fst (allowRequest bs0 now0 k0 w0 M0) k0 = Some \<lparr>count = 1, resetAt = now0 + w0\<rparr>"
    using opening_call[of bs0 now0 k0 w0 M0] by simp
  have single: "\<not> allowed (snd (allowRequest bs0 now0 k0 w0 M0)) \<longrightarrow>
           (\<exists>e. bs0 k0 = Some e \<and> now0 < resetAt e
              \<and> retryAfterMs (snd (allowRequest bs0 now0 k0 w0 M0)) = Some (resetAt e - now0))"
    by (auto simp: allowRequest_def split: option.splits if_splits)
  from w le whole reset single show ?thesis by blast
qed

lemma sample_run:
  "snd (runRequests Map.empty
      [sampleCall 0 2, sampleCall 1 2, sampleCall 2 2, sampleCall 20 2, sampleCall 21 2])
   = [\<lparr>call = sampleCall 0 2, opened = True, outcome = okResult\<rparr>,
      \<lparr>call = sampleCall 1 2, opened = False, outcome = okResult\<rparr>,
      \<lparr>call = sampleCall 2 2, opened = False,
       outcome = \<lparr>allowed = False, retryAfterMs = Some 8\<rparr>\<rparr>,
      \<lparr>call = sampleCall 20 2, opened = True, outcome = okResult\<rparr>,
      \<lparr>call = sampleCall 21 2, opened = False, outcome = okResult\<rparr>]"
  by (simp add: sampleCall_def allowRequest_def opensWindow_def okResult_def)

theorem window_allows_at_most_max_witness:
  "allowedCount [\<lparr>call = sampleCall 0 2, opened = True, outcome = okResult\<rparr>,
        \<lparr>call = sampleCall 1 2, opened = False, outcome = okResult\<rparr>,
        \<lparr>call = sampleCall 2 2, opened = False,
         outcome = \<lparr>allowed = False, retryAfterMs = Some 8\<rparr>\<rparr>] = 2
   \<and> retryAfterMs \<lparr>allowed = False, retryAfterMs = Some (8::int)\<rparr> = Some (0 + 10 - 2)
   \<and> allowedCount [\<lparr>call = sampleCall 20 2, opened = True, outcome = okResult\<rparr>,
        \<lparr>call = sampleCall 21 2, opened = False, outcome = okResult\<rparr>] = 2
   \<and> fst (allowRequest Map.empty 0 sampleKey 10 2) sampleKey = Some \<lparr>count = 1, resetAt = 10\<rparr>
   \<and> \<not> allowed (snd (allowRequest [sampleKey \<mapsto> \<lparr>count = 2, resetAt = 10\<rparr>] 2 sampleKey 10 2))"
proof -
  let ?cs = "[sampleCall 0 2, sampleCall 1 2, sampleCall 2 2, sampleCall 20 2, sampleCall 21 2]"
  let ?r0 = "\<lparr>call = sampleCall 0 2, opened = True, outcome = okResult\<rparr>"
  let ?r1 = "\<lparr>call = sampleCall 1 2, opened = False, outcome = okResult\<rparr>"
  let ?r2 = "\<lparr>call = sampleCall 2 2, opened = False,
               outcome = \<lparr>allowed = False, retryAfterMs = Some 8\<rparr>\<rparr>"
  let ?r3 = "\<lparr>call = sampleCall 20 2, opened = True, outcome = okResult\<rparr>"
  let ?r4 = "\<lparr>call = sampleCall 21 2, opened = False, outcome = okResult\<rparr>"
  let ?bs = "[sampleKey \<mapsto> \<lparr>count = 2, resetAt = 10\<rparr>]"
  have h1: "\<forall>c \<in> set ?cs. call_key c = sampleKey \<longrightarrow> call_max c = 2"
    by (simp add: sampleCall_def)
  have keys: "forKey sampleKey (snd (runRequests Map.empty ?cs)) = [?r0, ?r1, ?r2, ?r3, ?r4]"
    by (simp only: sample_run) (simp add: forKey_def sampleCall_def)
  have h2: "forKey sampleKey (snd (runRequests Map.empty ?cs)) = [] @ ?r0 # [?r1, ?r2] @ [?r3, ?r4]"
    using keys by simp
  have h2': "forKey sampleKey (snd (runRequests Map.empty ?cs)) = [?r0, ?r1, ?r2] @ ?r3 # [?r4] @ []"
    using keys by simp
  have h3: "opened ?r0" "opened ?r3" by simp_all
  have h4: "\<forall>x \<in> set [?r1, ?r2]. \<not> opened x" "\<forall>x \<in> set [?r4]. \<not> opened x" by simp_all
  have h5: "(2::real) \<in> \<int>" by simp
  have h6: "opensWindow Map.empty 0 sampleKey" by (simp add: opensWindow_def)
  have h7: "\<not> allowed (snd (allowRequest ?bs 2 sampleKey 10 2))"
    by (simp add: allowRequest_def)
  from window_allows_at_most_max[OF h1 h2 h3(1) h4(1), of Map.empty 0 sampleKey 10 2]
    window_allows_at_most_max[OF h1 h2' h3(2) h4(2), of ?bs 2 sampleKey 10 2]
    h5 h6 h7
  show ?thesis by (simp add: sampleCall_def allowedCount_def okResult_def)
qed

text \<open>A limit that is not a whole number: at 2.5 three calls of a window are allowed.\<close>

lemma fractional_limit_allows_ceiling:
  "map (\<lambda>r. allowed (outcome r)) (snd (runRequests Map.empty
      [sampleCall 0 2.5, sampleCall 1 2.5, sampleCall 2 2.5, sampleCall 3 2.5]))
   = [True, True, True, False]"
  by (simp add: sampleCall_def allowRequest_def)

text \<open>
  Claim C8. A call opens a window exactly when the key has no entry or its entry's window
  has elapsed; such a call is allowed whatever \<open>maxRequests\<close> is, and sets the
  count to 1. With \<open>maxRequests = 0\<close> every window instance has exactly one
  allowed call.
\<close>

theorem first_call_of_window_allowed:
  "(opensWindow bs now k \<longleftrightarrow> bs k = None \<or> (\<exists>e. bs k = Some e \<and> resetAt e \<le> now))
   \<and> (opensWindow bs now k \<longrightarrow>
        allowRequest bs now k w M =
          (bs(k \<mapsto> \<lparr>count = 1, resetAt = now + w\<rparr>), \<lparr>allowed = True, retryAfterMs = None\<rparr>))
   \<and> ((\<forall>c \<in> set cs. call_key c = k \<and> call_max c = 0)
        \<and> snd (runRequests bs' cs) = pre @ r # seg @ post
        \<and> opened r \<and> (\<forall>x \<in> set seg. \<not> opened x)
        \<longrightarrow> allowed (outcome r) \<and> allowedCount (r # seg) = 1)"
proof -
  have a: "opensWindow bs now k \<longleftrightarrow> bs k = None \<or> (\<exists>e. bs k = Some e \<and> resetAt e \<le> now)"
    by (simp add: opensWindow_def split: option.splits)
  have b: "opensWindow bs now k \<longrightarrow>
        allowRequest bs now k w M =
          (bs(k \<mapsto> \<lparr>count = 1, resetAt = now + w\<rparr>), \<lparr>allowed = True, retryAfterMs = None\<rparr>)"
    using opening_call by blast
  have c: "(\<forall>c \<in> set cs. call_key c = k \<and> call_max c = 0)
        \<and> snd (runRequests bs' cs) = pre @ r # seg @ post
        \<and> opened r \<and> (\<forall>x \<in> set seg. \<not> opened x)
        \<longrightarrow> allowed (outcome r) \<and> allowedCount (r # seg) = 1"
  proof
    assume h: "(\<forall>c \<in> set cs. call_key c = k \<and> call_max c = 0)
        \<and> snd (runRequests bs' cs) = pre @ r # seg @ post
        \<and> opened r \<and> (\<forall>x \<in> set seg. \<not> opened x)"
    then have h1: "\<forall>c \<in> set cs. call_key c = k \<and> call_max c = 0"
      and h2: "snd (runRequests bs' cs) = pre @ r # seg @ post"
      and h3: "opened r" and h4: "\<forall>x \<in> set seg. \<not> opened x" by blast+
    from window_instance_single[OF h1 h2 h3 h4]
    have ok: "allowed (outcome r)"
      and eq: "int (allowedCount (r # seg)) = min (int (length (r # seg))) (max 1 \<lceil>0::real\<rceil>)"
      by blast+
    from eq have "int (allowedCount (r # seg)) = 1" by simp
    with ok show "allowed (outcome r) \<and> allowedCount (r # seg) = 1" by simp
  qed
  from a b c show ?thesis by blast
qed

theorem first_call_of_window_allowed_witness:
  "opensWindow Map.empty 0 sampleKey
   \<and> allowed (snd (allowRequest Map.empty 0 sampleKey 10 0))
   \<and> allowedCount [\<lparr>call = sampleCall 0 0, opened = True, outcome = okResult\<rparr>,
          \<lparr>call = sampleCall 1 0, opened = False,
           outcome = \<lparr>allowed = False, retryAfterMs = Some 9\<rparr>\<rparr>] = 1"
proof -
  let ?cs = "[sampleCall 0 0, sampleCall 1 0, sampleCall 20 0]"
  let ?r0 = "\<lparr>call = sampleCall 0 0, opened = True, outcome = okResult\<rparr>"
  let ?r1 = "\<lparr>call = sampleCall 1 0, opened = False,
               outcome = \<lparr>allowed = False, retryAfterMs = Some 9\<rparr>\<rparr>"
  let ?r2 = "\<lparr>call = sampleCall 20 0, opened = True, outcome = okResult\<rparr>"
  have h0: "opensWindow Map.empty 0 sampleKey" by (simp add: opensWindow_def)
  have h1: "\<forall>c \<in> set ?cs. call_key c = sampleKey \<and> call_max c = 0"
    by (simp add: sampleCall_def)
  have h2: "snd (runRequests Map.empty ?cs) = [] @ ?r0 # [?r1] @ [?r2]"
    by (simp add: sampleCall_def allowRequest_def opensWindow_def okResult_def)
  have h3: "opened ?r0 \<and> (\<forall>x \<in> set [?r1]. \<not> opened x)" by simp
  from first_call_of_window_allowed[of Map.empty 0 sampleKey 10 0 ?cs Map.empty "[]" ?r0 "[?r1]" "[?r2]"]
    h0 h1 h2 h3
  show ?thesis by simp
qed

section \<open>Properties of cursor decoding and of GET /history\<close>

lemma split_no_sep: "sep \<notin> set s \<Longrightarrow> split sep s = [s]"
  by (induction s) (auto simp: Let_def)

lemma split_nonempty: "split sep s \<noteq> []"
  by (induction s) (auto simp: Let_def)

lemma split_length: "length (split sep s) = Suc (length (filter (\<lambda>c. c = sep) s))"
proof (induction s)
  case Nil
  then show ?case by simp
next
  case (Cons c cs)
  then show ?case using split_nonempty[of sep cs]
    by (cases "split sep cs") (auto simp: Let_def)
qed

lemma split_single: "length (split sep s) = 1 \<longleftrightarrow> sep \<notin> set s"
  by (auto simp: split_length filter_empty_conv)

lemma split_two:
  "sep \<notin> set a \<Longrightarrow> sep \<notin> set b \<Longrightarrow> split sep (a @ sep # b) = [a, b]"
  by (induction a) (auto simp: split_no_sep Let_def)

lemma toIso_None:
  "toIso P s = None \<longleftrightarrow> \<not> zodDatetime P (trim s) \<and> dateParse P (trim s) = None"
  by (simp add: toIso_def Let_def split: option.splits)

lemma toIso_normalized:
  "\<not> zodDatetime P (trim s) \<Longrightarrow> dateParse P (trim s) = Some ms \<Longrightarrow>
     toIso P s = Some (toISOString P ms)"
  by (simp add: toIso_def Let_def)

lemma parseCursor_nonempty:
  assumes "c \<noteq> []"
  shows "parseCursor P (Some c) =
     (if length (split 0x7C c) = 1 then
        (case toIso P (split 0x7C c ! 0) of None \<Rightarrow> None
         | Some ts \<Rightarrow> if ts = [] then None else Some \<lparr>createdAt = ts, parsedId = None\<rparr>)
      else if length (split 0x7C c) = 2 then
        (case toIso P (split 0x7C c ! 0) of None \<Rightarrow> None
         | Some ts \<Rightarrow>
             if ts \<noteq> [] \<and> zodDatetime P ts \<and> zodUuid P (trim (split 0x7C c ! 1))
             then Some \<lparr>createdAt = ts, parsedId = Some (trim (split 0x7C c ! 1))\<rparr>
             else None)
      else None)"
proof -
  from assms obtain a cs where c: "c = a # cs" by (cases c) auto
  show ?thesis unfolding c
    by (auto simp: parseCursor_def Let_def simp del: split.simps split: option.splits list.splits)
qed

lemma parseCursor_one:
  assumes "c \<noteq> []" "length (split 0x7C c) = 1"
  shows "parseCursor P (Some c) =
     (case toIso P c of None \<Rightarrow> None
      | Some ts \<Rightarrow> if ts = [] then None else Some \<lparr>createdAt = ts, parsedId = None\<rparr>)"
proof -
  from assms(2) have "0x7C \<notin> set c" using split_single[of "0x7C" c] by simp
  then have "split 0x7C c = [c]" by (rule split_no_sep)
  with assms(1) show ?thesis by (simp add: parseCursor_nonempty)
qed

lemma parseCursor_two:
  assumes "c \<noteq> []" "length (split 0x7C c) = 2"
  shows "parseCursor P (Some c) =
     (case toIso P (split 0x7C c ! 0) of None \<Rightarrow> None
      | Some ts \<Rightarrow>
          if ts \<noteq> [] \<and> zodDatetime P ts \<and> zodUuid P (trim (split 0x7C c ! 1))
          then Some \<lparr>createdAt = ts, parsedId = Some (trim (split 0x7C c ! 1))\<rparr>
          else None)"
  using assms by (simp add: parseCursor_nonempty)

lemma parseCursor_many:
  assumes "2 < length (split 0x7C c)"
  shows "parseCursor P (Some c) = None"
proof -
  from assms have "c \<noteq> []" by auto
  with assms show ?thesis by (simp add: parseCursor_nonempty)
qed

lemma getHistory_invalid_cursor:
  assumes "q_cursor q = Some c" "c \<noteq> []" "parseCursor P (Some c) = None"
  shows "h_response (getHistory P env conn st q) = errorResponse 400 invalidRequest"
  using assms
  by (cases c) (auto simp: getHistory_def parseHistoryQuery_def Let_def split: option.splits)

lemma getHistory_no_cursor:
  assumes "parseHistoryQuery P q = Some (sessionId, cursor, limit)"
    and "cursor = None \<or> cursor = Some []"
  shows "getHistory P env conn st q =
     (case getRecentMessages P st conn sessionId
             (case limit of Some l \<Rightarrow> l | None \<Rightarrow> CHAT_PAGE_SIZE env) of
        Inl e \<Rightarrow> \<lparr>h_logged = [''chat.history.start'', ''chat.history.failed''],
                   h_response = errorResponse 500 somethingWentWrong\<rparr>
      | Inr msgs \<Rightarrow> \<lparr>h_logged = [''chat.history.start'', ''chat.history.fetch.ok'',
                                   ''chat.history.finish''],
                   h_response = okResponse (HistoryBody msgs (nextCursorOf msgs))\<rparr>)"
  using assms by (auto simp: getHistory_def parseCursor_def Let_def)

lemma getHistory_with_cursor:
  assumes "parseHistoryQuery P q = Some (sessionId, cursor, limit)"
    and "parseCursor P cursor = Some pc"
  shows "getHistory P env conn st q =
     (case getOlderMessages P st conn
             \<lparr>older_conversationId = sessionId, cursorCreatedAt = createdAt pc,
              cursorId = parsedId pc,
              older_limit = (case limit of Some l \<Rightarrow> l | None \<Rightarrow> CHAT_PAGE_SIZE env)\<rparr> of
        Inl e \<Rightarrow> \<lparr>h_logged = [''chat.history.start'', ''chat.history.failed''],
                   h_response = errorResponse 500 somethingWentWrong\<rparr>
      | Inr msgs \<Rightarrow> \<lparr>h_logged = [''chat.history.start'', ''chat.history.fetch.ok'',
                                   ''chat.history.finish''],
                   h_response = okResponse (HistoryBody msgs (nextCursorOf msgs))\<rparr>)"
  using assms by (auto simp: getHistory_def Let_def)

lemma sample_js_distinct:
  "idA \<noteq> idB" "idB \<noteq> idA" "idA \<noteq> sampleSession" "idB \<noteq> sampleSession"
  "sampleSession \<noteq> idA" "sampleSession \<noteq> idB"
  "iso000 \<noteq> iso100" "iso000 \<noteq> iso900" "iso100 \<noteq> iso900" "iso100 \<noteq> iso000"
  "iso900 \<noteq> iso000" "iso900 \<noteq> iso100"
  "dateText \<noteq> iso000" "dateText \<noteq> iso100" "dateText \<noteq> iso900"
  "expandedYear \<noteq> iso000" "expandedYear \<noteq> iso100" "expandedYear \<noteq> iso900"
  "expandedYear \<noteq> dateText"
  "isoNext \<noteq> iso000" "isoNext \<noteq> iso100" "isoNext \<noteq> iso900"
  "dateText \<noteq> isoNext" "expandedYear \<noteq> isoNext"
  "idC \<noteq> idA" "idC \<noteq> idB" "idC \<noteq> sampleSession" "idA \<noteq> idC" "idB \<noteq> idC"
  by (simp_all add: idA_def idB_def idC_def sampleSession_def iso000_def iso100_def iso900_def
      isoNext_def dateText_def expandedYear_def js_def)

lemma sample_no_bar:
  "0x7C \<notin> set idA" "0x7C \<notin> set idB" "0x7C \<notin> set iso000" "0x7C \<notin> set iso100"
  "0x7C \<notin> set iso900" "0x7C \<notin> set dateText" "0x7C \<notin> set expandedYear"
  by (simp_all add: idA_def idB_def iso000_def iso100_def iso900_def
      dateText_def expandedYear_def js_def)

lemma sample_trim:
  "trim idA = idA" "trim idB = idB" "trim iso000 = iso000" "trim iso100 = iso100"
  "trim iso900 = iso900" "trim dateText = dateText" "trim expandedYear = expandedYear"
  by (simp_all add: trim_def isWhiteSpace_def idA_def idB_def iso000_def iso100_def iso900_def
      dateText_def expandedYear_def js_def)

lemma sample_nonempty:
  "idA \<noteq> []" "idB \<noteq> []" "iso000 \<noteq> []" "iso100 \<noteq> []" "iso900 \<noteq> []" "dateText \<noteq> []"
  "expandedYear \<noteq> []" "sampleSession \<noteq> []"
  by (simp_all add: idA_def idB_def iso000_def iso100_def iso900_def
      dateText_def expandedYear_def sampleSession_def js_def)

lemma bar_js: "js ''|'' = [0x7C]"
  by (simp add: js_def)

lemma sample_split:
  "0x7C \<notin> set a \<Longrightarrow> 0x7C \<notin> set b \<Longrightarrow> split 0x7C (a @ js ''|'' @ b) = [a, b]"
  using split_two[of "0x7C" a b] by (simp add: bar_js)

lemma sample_toIso:
  "toIso isoPlatform dateText = Some iso000"
  "toIso isoPlatform expandedYear = Some expandedYear"
  "toIso isoPlatform iso100 = Some iso100"
  "toIso isoPlatform iso900 = Some iso900"
  by (simp_all add: toIso_def isoPlatform_def parseTable_def sample_trim sample_js_distinct)

lemma sample_parse:
  "parseCursor isoPlatform (Some (dateText @ js ''|'' @ idA))
     = Some \<lparr>createdAt = iso000, parsedId = Some idA\<rparr>"
  "parseCursor isoPlatform (Some (expandedYear @ js ''|'' @ idA)) = None"
  "parseCursor isoPlatform (Some expandedYear)
     = Some \<lparr>createdAt = expandedYear, parsedId = None\<rparr>"
proof -
  have ne: "dateText @ js ''|'' @ idA \<noteq> []" "expandedYear @ js ''|'' @ idA \<noteq> []"
    by (simp_all add: sample_nonempty)
  have z: "zodDatetime isoPlatform iso000" "\<not> zodDatetime isoPlatform expandedYear"
    "zodUuid isoPlatform idA"
    by (simp_all add: isoPlatform_def parseTable_def sample_js_distinct)
  show "parseCursor isoPlatform (Some (dateText @ js ''|'' @ idA))
     = Some \<lparr>createdAt = iso000, parsedId = Some idA\<rparr>"
    using z sample_nonempty
    by (simp add: parseCursor_two[OF ne(1)] sample_split sample_no_bar sample_toIso sample_trim)
  show "parseCursor isoPlatform (Some (expandedYear @ js ''|'' @ idA)) = None"
    using z sample_nonempty
    by (simp add: parseCursor_two[OF ne(2)] sample_split sample_no_bar sample_toIso sample_trim)
  show "parseCursor isoPlatform (Some expandedYear)
     = Some \<lparr>createdAt = expandedYear, parsedId = None\<rparr>"
  proof -
    have "split 0x7C expandedYear = [expandedYear]"
      by (rule split_no_sep) (rule sample_no_bar)
    then have "length (split 0x7C expandedYear) = 1" by simp
    from parseCursor_one[OF sample_nonempty(7) this, of isoPlatform] sample_nonempty
    show ?thesis by (simp add: sample_toIso)
  qed
qed

lemma sample_uuid:
  "pgUuid isoPlatform sampleSession = Some sampleSession"
  "pgUuid isoPlatform idA = Some idA" "pgUuid isoPlatform idB = Some idB"
  "zodUuid isoPlatform sampleSession" "zodUuid isoPlatform idA" "zodUuid isoPlatform idB"
  by (simp_all add: isoPlatform_def)

lemma sample_msgs:
  "stored_conversation_id msgA = sampleSession" "stored_conversation_id msgB = sampleSession"
  "stored_id msgA = idA" "stored_id msgB = idB"
  "stored_created_at msgA = 1766944354100" "stored_created_at msgB = 1766944354900"
  "orderKey msgA \<le> orderKey msgB" "\<not> orderKey msgB \<le> orderKey msgA"
  "orderKey msgA = (1766944354100, idA)" "orderKey msgB = (1766944354900, idB)"
  by (simp_all add: orderKey_def msgA_def msgB_def)

lemma sample_recent:
  "getRecentMessages isoPlatform sampleStore True sampleSession 10
     = Inr [toRow isoPlatform msgA, toRow isoPlatform msgB]"
  "getRecentMessages isoPlatform sampleStore True sampleSession 1
     = Inr [toRow isoPlatform msgB]"
  by (simp_all add: getRecentMessages_def sample_uuid sampleStore_def pageOf_def newestFirst_def
        sample_msgs)

lemma sample_query_ok:
  "parseHistoryQuery isoPlatform (sampleQuery cursor None) = Some (sampleSession, cursor, None)"
  "parseHistoryQuery isoPlatform (sampleQuery cursor (Some 1)) = Some (sampleSession, cursor, Some 1)"
  by (simp_all add: parseHistoryQuery_def sampleQuery_def sample_uuid)

lemma sample_rows:
  "toRow isoPlatform msgA =
     \<lparr>id_col = idA, conversation_id = sampleSession, sender = User,
      text_col = js ''Where is my order?'', created_at = iso100\<rparr>"
  "toRow isoPlatform msgB =
     \<lparr>id_col = idB, conversation_id = sampleSession, sender = Ai,
      text_col = js ''It ships tomorrow.'', created_at = iso900\<rparr>"
  by (simp_all add: toRow_def msgA_def msgB_def isoPlatform_def)

text \<open>
  Claim C7 as stated fails for a cursor that is present and undecodable but empty:
  \<open>parseCursor\<close> returns \<open>null\<close> for it, and the request is answered
  with the most recent page.
\<close>

theorem empty_cursor_gets_recent_page:
  "parseCursor isoPlatform (Some []) = None
   \<and> h_response (getHistory isoPlatform sampleEnv True sampleStore (sampleQuery (Some []) None))
       = okResponse (HistoryBody [toRow isoPlatform msgA, toRow isoPlatform msgB]
           (Some (iso100 @ js ''|'' @ idA)))"
proof -
  have "parseCursor isoPlatform (Some []) = None" by (simp add: parseCursor_def)
  moreover have "getHistory isoPlatform sampleEnv True sampleStore (sampleQuery (Some []) None)
      = pageResult (getRecentMessages isoPlatform sampleStore True sampleSession 10)"
    using getHistory_no_cursor[OF sample_query_ok(1), of "Some []" sampleEnv True sampleStore]
    by (simp add: pageResult_def sampleEnv_def)
  ultimately show ?thesis
    by (simp add: sample_recent pageResult_def nextCursorOf_def sample_rows)
qed

text \<open>
  Claim C7, amended. A request whose cursor is not empty and is not decodable is answered
  400 \<open>Invalid request\<close>, and when the rest of the query is valid the log line is
  \<open>chat.history.cursor_invalid\<close>. Not decodable are: a first segment that is neither an
  ISO timestamp nor accepted by the date parser, a second segment that is not a uuid, and
  more than two segments. An absent cursor, and the empty string, are answered with the
  most recent page.
\<close>

theorem malformed_cursor_rejected:
  "(q_cursor q = Some c \<and> c \<noteq> [] \<and> parseCursor P (Some c) = None \<longrightarrow>
      h_response (getHistory P env conn st q) = errorResponse 400 invalidRequest)
   \<and> (parseHistoryQuery P q = Some (sessionId, Some c, limit) \<and> c \<noteq> []
        \<and> parseCursor P (Some c) = None \<longrightarrow>
      h_logged (getHistory P env conn st q) = [''chat.history.cursor_invalid''])
   \<and> (\<not> zodDatetime P (trim (split 0x7C c ! 0)) \<and> dateParse P (trim (split 0x7C c ! 0)) = None
        \<longrightarrow> parseCursor P (Some c) = None)
   \<and> (length (split 0x7C c) = 2 \<and> \<not> zodUuid P (trim (split 0x7C c ! 1))
        \<longrightarrow> parseCursor P (Some c) = None)
   \<and> (2 < length (split 0x7C c) \<longrightarrow> parseCursor P (Some c) = None)
   \<and> (parseHistoryQuery P q = Some (sessionId, cursor, limit)
        \<and> (cursor = None \<or> cursor = Some []) \<longrightarrow>
      getHistory P env conn st q
        = pageResult (getRecentMessages P st conn sessionId (pageSizeOf env limit)))"
proof -
  have a: "q_cursor q = Some c \<and> c \<noteq> [] \<and> parseCursor P (Some c) = None \<longrightarrow>
      h_response (getHistory P env conn st q) = errorResponse 400 invalidRequest"
    using getHistory_invalid_cursor by blast
  have b: "parseHistoryQuery P q = Some (sessionId, Some c, limit) \<and> c \<noteq> []
        \<and> parseCursor P (Some c) = None \<longrightarrow>
      h_logged (getHistory P env conn st q) = [''chat.history.cursor_invalid'']"
    by (simp add: getHistory_def)
  have c1: "\<not> zodDatetime P (trim (split 0x7C c ! 0)) \<and> dateParse P (trim (split 0x7C c ! 0)) = None
        \<longrightarrow> parseCursor P (Some c) = None"
  proof
    assume h: "\<not> zodDatetime P (trim (split 0x7C c ! 0)) \<and> dateParse P (trim (split 0x7C c ! 0)) = None"
    then have t: "toIso P (split 0x7C c ! 0) = None" by (simp add: toIso_None)
    show "parseCursor P (Some c) = None"
    proof (cases "c = []")
      case True
      then show ?thesis by (simp add: parseCursor_def)
    next
      case False
      with t show ?thesis by (simp add: parseCursor_nonempty)
    qed
  qed
  have c2: "length (split 0x7C c) = 2 \<and> \<not> zodUuid P (trim (split 0x7C c ! 1))
        \<longrightarrow> parseCursor P (Some c) = None"
  proof
    assume h: "length (split 0x7C c) = 2 \<and> \<not> zodUuid P (trim (split 0x7C c ! 1))"
    then have "c \<noteq> []" by auto
    from parseCursor_two[OF this, of P] h show "parseCursor P (Some c) = None"
      by (simp split: option.splits)
  qed
  have c3: "2 < length (split 0x7C c) \<longrightarrow> parseCursor P (Some c) = None"
    using parseCursor_many by blast
  have d: "parseHistoryQuery P q = Some (sessionId, cursor, limit)
        \<and> (cursor = None \<or> cursor = Some []) \<longrightarrow>
      getHistory P env conn st q
        = pageResult (getRecentMessages P st conn sessionId (pageSizeOf env limit))"
    using getHistory_no_cursor[of P q sessionId cursor limit env conn st]
    by (simp add: pageResult_def pageSizeOf_def)
  from a b c1 c2 c3 d show ?thesis by blast
qed

theorem malformed_cursor_rejected_witness:
  "h_response (getHistory isoPlatform sampleEnv True sampleStore
       (sampleQuery (Some (expandedYear @ js ''|'' @ idA)) None))
     = errorResponse 400 invalidRequest
   \<and> h_logged (getHistory isoPlatform sampleEnv True sampleStore
       (sampleQuery (Some (expandedYear @ js ''|'' @ idA)) None))
     = [''chat.history.cursor_invalid'']
   \<and> getHistory isoPlatform sampleEnv True sampleStore (sampleQuery None None)
     = pageResult (Inr [toRow isoPlatform msgA, toRow isoPlatform msgB])"
proof -
  let ?c = "expandedYear @ js ''|'' @ idA"
  have h1: "q_cursor (sampleQuery (Some ?c) None) = Some ?c" by (simp add: sampleQuery_def)
  have h2: "?c \<noteq> []" by (simp add: sample_nonempty)
  note h3 = sample_parse(2)
  note h4 = sample_query_ok(1)[of "Some ?c"]
  note h5 = sample_query_ok(1)[of None]
  from malformed_cursor_rejected[of "sampleQuery (Some ?c) None" ?c isoPlatform sampleEnv True
      sampleStore sampleSession None None]
    malformed_cursor_rejected[of "sampleQuery None None" ?c isoPlatform sampleEnv True
      sampleStore sampleSession None None]
    h1 h2 h3 h4 h5
  show ?thesis by (simp add: pageSizeOf_def sampleEnv_def sample_recent)
qed

text \<open>
  Claim C9 as stated fails for a two-segment cursor whose first segment the date parser
  accepts but whose normalized form does not pass the ISO validation again: an
  expanded-year timestamp. The second segment is a uuid, and still the cursor is invalid.
\<close>

theorem expanded_year_cursor_invalid:
  "\<not> zodDatetime isoPlatform (trim expandedYear)
   \<and> dateParse isoPlatform (trim expandedYear) = Some 253402300800000
   \<and> split 0x7C (expandedYear @ js ''|'' @ idA) = [expandedYear, idA]
   \<and> zodUuid isoPlatform (trim idA)
   \<and> parseCursor isoPlatform (Some (expandedYear @ js ''|'' @ idA)) = None"
proof -
  have "\<not> zodDatetime isoPlatform (trim expandedYear)"
    "dateParse isoPlatform (trim expandedYear) = Some 253402300800000"
    by (simp_all add: sample_trim isoPlatform_def parseTable_def sample_js_distinct)
  moreover have "split 0x7C (expandedYear @ js ''|'' @ idA) = [expandedYear, idA]"
    by (simp add: sample_split sample_no_bar)
  moreover have "zodUuid isoPlatform (trim idA)"
    by (simp add: sample_trim sample_uuid)
  ultimately show ?thesis using sample_parse(2) by simp
qed

text \<open>
  Claim C9, amended. \<open>toIso\<close> fails only for a segment that fails both the ISO
  validation and the date parser; a segment that is not ISO but is accepted by the date
  parser is normalized with \<open>toISOString\<close>. A one-segment cursor is invalid only when
  \<open>toIso\<close> fails (or yields the empty string). A two-segment cursor is invalid exactly
  when that happens, or the normalized timestamp fails the ISO validation, or the second
  segment is not a uuid. The timestamp of an accepted cursor is the normalized one, and
  it is the one used for the query.
\<close>

theorem non_iso_timestamp_normalized:
  "(toIso P s = None \<longleftrightarrow> \<not> zodDatetime P (trim s) \<and> dateParse P (trim s) = None)
   \<and> (\<not> zodDatetime P (trim s) \<and> dateParse P (trim s) = Some ms \<longrightarrow>
        toIso P s = Some (toISOString P ms))
   \<and> (c \<noteq> [] \<and> length (split 0x7C c) = 1 \<longrightarrow>
        (parseCursor P (Some c) = None \<longleftrightarrow> toIso P c = None \<or> toIso P c = Some []))
   \<and> (c \<noteq> [] \<and> length (split 0x7C c) = 2 \<longrightarrow>
        (parseCursor P (Some c) = None \<longleftrightarrow>
           toIso P (split 0x7C c ! 0) = None \<or> toIso P (split 0x7C c ! 0) = Some []
           \<or> \<not> zodDatetime P (the (toIso P (split 0x7C c ! 0)))
           \<or> \<not> zodUuid P (trim (split 0x7C c ! 1))))
   \<and> (parseCursor P (Some c) = Some pc \<longrightarrow>
        toIso P (split 0x7C c ! 0) = Some (createdAt pc))
   \<and> (parseHistoryQuery P q = Some (sessionId, Some c, limit)
        \<and> parseCursor P (Some c) = Some pc \<longrightarrow>
        getHistory P env conn st q
          = pageResult (getOlderMessages P st conn
              \<lparr>older_conversationId = sessionId, cursorCreatedAt = createdAt pc,
               cursorId = parsedId pc, older_limit = pageSizeOf env limit\<rparr>))"
proof -
  have a: "toIso P s = None \<longleftrightarrow> \<not> zodDatetime P (trim s) \<and> dateParse P (trim s) = None"
    by (rule toIso_None)
  have b: "\<not> zodDatetime P (trim s) \<and> dateParse P (trim s) = Some ms \<longrightarrow>
        toIso P s = Some (toISOString P ms)"
    using toIso_normalized by blast
  have c1: "c \<noteq> [] \<and> length (split 0x7C c) = 1 \<longrightarrow>
        (parseCursor P (Some c) = None \<longleftrightarrow> toIso P c = None \<or> toIso P c = Some [])"
  proof
    assume h: "c \<noteq> [] \<and> length (split 0x7C c) = 1"
    then have "parseCursor P (Some c) =
       (case toIso P c of None \<Rightarrow> None
        | Some ts \<Rightarrow> if ts = [] then None else Some \<lparr>createdAt = ts, parsedId = None\<rparr>)"
      using parseCursor_one[of c P] by blast
    then show "parseCursor P (Some c) = None \<longleftrightarrow> toIso P c = None \<or> toIso P c = Some []"
      by (simp split: option.splits)
  qed
  have c2: "c \<noteq> [] \<and> length (split 0x7C c) = 2 \<longrightarrow>
        (parseCursor P (Some c) = None \<longleftrightarrow>
           toIso P (split 0x7C c ! 0) = None \<or> toIso P (split 0x7C c ! 0) = Some []
           \<or> \<not> zodDatetime P (the (toIso P (split 0x7C c ! 0)))
           \<or> \<not> zodUuid P (trim (split 0x7C c ! 1)))"
  proof
    assume h: "c \<noteq> [] \<and> length (split 0x7C c) = 2"
    then have "parseCursor P (Some c) =
       (case toIso P (split 0x7C c ! 0) of None \<Rightarrow> None
        | Some ts \<Rightarrow>
            if ts \<noteq> [] \<and> zodDatetime P ts \<and> zodUuid P (trim (split 0x7C c ! 1))
            then Some \<lparr>createdAt = ts, parsedId = Some (trim (split 0x7C c ! 1))\<rparr>
            else None)"
      using parseCursor_two[of c P] by blast
    then show "parseCursor P (Some c) = None \<longleftrightarrow>
           toIso P (split 0x7C c ! 0) = None \<or> toIso P (split 0x7C c ! 0) = Some []
           \<or> \<not> zodDatetime P (the (toIso P (split 0x7C c ! 0)))
           \<or> \<not> zodUuid P (trim (split 0x7C c ! 1))"
      by (auto split: option.splits)
  qed
  have d: "parseCursor P (Some c) = Some pc \<longrightarrow>
        toIso P (split 0x7C c ! 0) = Some (createdAt pc)"
  proof
    assume h: "parseCursor P (Some c) = Some pc"
    then have ne: "c \<noteq> []" by (auto simp: parseCursor_def)
    from h parseCursor_nonempty[OF ne, of P]
    show "toIso P (split 0x7C c ! 0) = Some (createdAt pc)"
      by (auto split: if_splits option.splits)
  qed
  have e: "parseHistoryQuery P q = Some (sessionId, Some c, limit)
        \<and> parseCursor P (Some c) = Some pc \<longrightarrow>
        getHistory P env conn st q
          = pageResult (getOlderMessages P st conn
              \<lparr>older_conversationId = sessionId, cursorCreatedAt = createdAt pc,
               cursorId = parsedId pc, older_limit = pageSizeOf env limit\<rparr>)"
    using getHistory_with_cursor[of P q sessionId "Some c" limit pc env conn st]
    by (simp add: pageResult_def pageSizeOf_def)
  from a b c1 c2 d e show ?thesis by blast
qed

lemma sample_older:
  "getOlderMessages isoPlatform sampleStore True
      \<lparr>older_conversationId = sampleSession, cursorCreatedAt = iso000,
       cursorId = Some idB, older_limit = 1\<rparr> = Inr []"
  "getOlderMessages isoPlatform sampleStore True
      \<lparr>older_conversationId = sampleSession, cursorCreatedAt = iso900,
       cursorId = Some idB, older_limit = 1\<rparr> = Inr [toRow isoPlatform msgA]"
  "getOlderMessages isoPlatform sampleStore True
      \<lparr>older_conversationId = sampleSession, cursorCreatedAt = iso100,
       cursorId = Some idA, older_limit = 1\<rparr> = Inr []"
  "getOlderMessages isoPlatform sampleStore True
      \<lparr>older_conversationId = sampleSession, cursorCreatedAt = iso000,
       cursorId = Some idA, older_limit = 10\<rparr> = Inr []"
  by (simp_all add: getOlderMessages_def sample_uuid sample_nonempty sampleStore_def pageOf_def
      newestFirst_def sample_msgs isoPlatform_def parseTable_def sample_js_distinct)

theorem non_iso_timestamp_normalized_witness:
  "toIso isoPlatform dateText = Some (toISOString isoPlatform 1766944354000)
   \<and> parseCursor isoPlatform (Some (dateText @ js ''|'' @ idA))
        = Some \<lparr>createdAt = iso000, parsedId = Some idA\<rparr>
   \<and> getHistory isoPlatform sampleEnv True sampleStore
        (sampleQuery (Some (dateText @ js ''|'' @ idA)) None)
        = pageResult (Inr [])"
proof -
  let ?c = "dateText @ js ''|'' @ idA"
  have h1: "\<not> zodDatetime isoPlatform (trim dateText)"
    "dateParse isoPlatform (trim dateText) = Some 1766944354000"
    by (simp_all add: isoPlatform_def parseTable_def sample_trim sample_js_distinct)
  note h2 = sample_parse(1)
  note h3 = sample_query_ok(1)[of "Some ?c"]
  from non_iso_timestamp_normalized[of isoPlatform dateText 1766944354000 ?c
      "\<lparr>createdAt = iso000, parsedId = Some idA\<rparr>" "sampleQuery (Some ?c) None"
      sampleSession None sampleEnv True sampleStore]
    h1 h2 h3
  show ?thesis by (simp add: pageSizeOf_def sampleEnv_def sample_older)
qed

section \<open>Properties of POST /message\<close>

lemma ensureConversation_messages:
  "ensureConversation P st conn dbNow sid = Inr st1 \<Longrightarrow> messages st1 = messages st"
  by (auto simp: ensureConversation_def split: if_splits option.splits)

lemma insertMessage_appends:
  assumes "insertMessage P st io args = Inr (st2, uid, ts)"
  shows "\<exists>i c t. pgUuid P (ins_uuid io) = Some i \<and> pgUuid P (arg_conversationId args) = Some c
     \<and> i \<notin> stored_id ` set (messages st)
     \<and> c \<in> conv_id ` set (conversations st)
     \<and> messages st2 = messages st @
          [\<lparr>stored_id = i, stored_conversation_id = c, stored_sender = arg_sender args,
            stored_text = arg_text args, stored_created_at = t\<rparr>]
     \<and> conversations st2 = conversations st"
  using assms
  by (auto simp: insertMessage_def Let_def split: if_splits option.splits)

lemma insort_key_snoc:
  "f x \<le> f y \<Longrightarrow> insort_key f x (as @ [y]) = insort_key f x as @ [y]"
  by (induction as) auto

lemma sort_key_snoc:
  "\<forall>x \<in> set xs. f x \<le> f y \<Longrightarrow> sort_key f (xs @ [y]) = sort_key f xs @ [y]"
proof (induction xs)
  case Nil
  then show ?case by simp
next
  case (Cons x xs)
  then have "sort_key f (xs @ [y]) = sort_key f xs @ [y]" by simp
  with Cons.prems show ?case by (simp add: insort_key_snoc)
qed

lemma pageOf_newest:
  assumes "\<forall>m \<in> set ms. orderKey m \<le> orderKey row" "0 < n"
  shows "pageOf P n (ms @ [row]) \<noteq> [] \<and> last (pageOf P n (ms @ [row])) = toRow P row"
proof -
  have "newestFirst (ms @ [row]) = row # newestFirst ms"
    using sort_key_snoc[of ms orderKey row] assms(1) by (simp add: newestFirst_def)
  moreover from assms(2) obtain k where "nat n = Suc k" by (cases "nat n") auto
  ultimately show ?thesis by (simp add: pageOf_def)
qed

lemma persistStage_reaches_reply:
  assumes "''chat.message.insert_user.ok'' \<in> set (logged (persistStage P env sys io st sid clean))"
  shows "\<exists>st1 recent st2 uid ts.
       ensureConversation P st (ensure_conn io) (ensure_dbNow io) sid = Inr st1
     \<and> getRecentMessages P st1 (recent_conn io) sid (CHAT_PAGE_SIZE env) = Inr recent
     \<and> insertMessage P st1 (user_insert io) (userArgs sid clean) = Inr (st2, uid, ts)
     \<and> persistStage P env sys io st sid clean
          = replyStage P env sys io st2 reachedLog recent sid clean"
proof (cases "ensureConversation P st (ensure_conn io) (ensure_dbNow io) sid")
  case (Inl e)
  with assms show ?thesis by (simp add: persistStage_def)
next
  case (Inr st1)
  note e = this
  show ?thesis
  proof (cases "getRecentMessages P st1 (recent_conn io) sid (CHAT_PAGE_SIZE env)")
    case (Inl e')
    with assms e show ?thesis by (simp add: persistStage_def)
  next
    case (Inr recent)
    note r = this
    show ?thesis
    proof (cases "insertMessage P st1 (user_insert io) (userArgs sid clean)")
      case (Inl e'')
      with assms e r show ?thesis by (simp add: persistStage_def)
    next
      case (Inr res)
      obtain st2 uid ts where "res = (st2, uid, ts)" by (cases res) auto
      with Inr e r show ?thesis by (simp add: persistStage_def reachedLog_def)
    qed
  qed
qed

lemma postMessage_reaches_persist:
  assumes "''chat.message.insert_user.ok'' \<in> set (logged (postMessage P env sys io st req))"
  shows "\<exists>m sid. body_message req = Some m \<and> body_sessionId req = Some sid
     \<and> zodUuid P sid \<and> cleanText (trim m) \<noteq> []
     \<and> int (length (cleanText (trim m))) \<le> MAX_MESSAGE_CHARS env
     \<and> postMessage P env sys io st req = persistStage P env sys io st sid (cleanText (trim m))"
proof (cases "parseMessageBody P req")
  case None
  with assms show ?thesis by (simp add: postMessage_def)
next
  case (Some ms)
  obtain message sid where ms: "ms = (message, sid)" by (cases ms) auto
  from Some ms obtain m where m: "body_message req = Some m" "body_sessionId req = Some sid"
    "message = trim m" "zodUuid P sid"
    by (auto simp: parseMessageBody_def split: option.splits if_splits)
  from assms Some ms have "cleanText message \<noteq> []
       \<and> int (length (cleanText message)) \<le> MAX_MESSAGE_CHARS env
       \<and> postMessage P env sys io st req = persistStage P env sys io st sid (cleanText message)"
    by (auto simp: postMessage_def Let_def split: if_splits)
  with m show ?thesis by simp
qed

lemma replyStage_failure:
  assumes "\<forall>msgs. \<exists>e. invoke io msgs = Inl e"
  shows "replyStage P env sys io st2 lg recent sid clean =
     \<lparr>final_store = st2, logged = lg @ [''chat.message.llm_failed''],
      response = errorResponse 502 llmApology\<rparr>"
proof -
  from assms obtain e where
    "invoke io (lcMessages env sys (map toTurn recent) clean) = Inl e" by blast
  then have "\<exists>f. generateSupportReply env sys (invoke io) (map toTurn recent) clean = Inl f"
    by (simp add: generateSupportReply_def)
  then show ?thesis by (auto simp: replyStage_def Let_def)
qed

lemma apology_distinct:
  "llmApology \<noteq> invalidRequest" "llmApology \<noteq> messageEmpty" "llmApology \<noteq> messageTooLong"
  "llmApology \<noteq> sessionOverloaded" "llmApology \<noteq> ipOverloaded"
  "llmApology \<noteq> somethingWentWrong"
  by (simp_all add: llmApology_def invalidRequest_def messageEmpty_def messageTooLong_def
      sessionOverloaded_def ipOverloaded_def somethingWentWrong_def)

text \<open>
  Claim C1. Take a run of the handler in which the user's message was persisted (the log
  line \<open>chat.message.insert_user.ok\<close> was written) and the completion call fails on
  whatever it is given. Then the response is 502 with the fixed apology, which differs
  from every validation and rate-limit message; the stored \<open>ai\<close> messages are those
  that were stored before; the store holds one more message, the user's, with the cleaned
  text; and when that message is the newest of its conversation, a history fetch of any
  positive size returns a page that ends with it: no \<open>ai\<close> message follows it.
\<close>

theorem completion_failure_keeps_user_message:
  assumes persisted:
      "''chat.message.insert_user.ok'' \<in> set (logged (postMessage P env sys io st req))"
    and fails: "\<forall>msgs. \<exists>e. invoke io msgs = Inl e"
  shows "response (postMessage P env sys io st req) = errorResponse 502 llmApology
     \<and> llmApology \<notin> {invalidRequest, messageEmpty, messageTooLong, sessionOverloaded,
                        ipOverloaded}
     \<and> aiMessages (final_store (postMessage P env sys io st req)) = aiMessages st
     \<and> (\<exists>row. messages (final_store (postMessage P env sys io st req)) = messages st @ [row]
           \<and> stored_sender row = User
           \<and> stored_text row = cleanText (trim (the (body_message req)))
           \<and> pgUuid P (the (body_sessionId req)) = Some (stored_conversation_id row)
           \<and> (\<forall>limit. 0 < limit
                 \<and> (\<forall>m \<in> set (messages st).
                       stored_conversation_id m = stored_conversation_id row
                       \<longrightarrow> orderKey m \<le> orderKey row)
                 \<longrightarrow> (\<exists>page.
                        getRecentMessages P (final_store (postMessage P env sys io st req)) True
                          (the (body_sessionId req)) limit = Inr page
                        \<and> page \<noteq> [] \<and> last page = toRow P row
                        \<and> sender (last page) = User)))"
proof -
  let ?out = "postMessage P env sys io st req"
  from postMessage_reaches_persist[OF persisted] obtain m sid where
    req: "body_message req = Some m" "body_sessionId req = Some sid"
    and p: "?out = persistStage P env sys io st sid (cleanText (trim m))"
    by blast
  let ?clean = "cleanText (trim m)"
  from persisted p
  have "''chat.message.insert_user.ok'' \<in> set (logged (persistStage P env sys io st sid ?clean))"
    by simp
  from persistStage_reaches_reply[OF this] obtain st1 recent st2 uid ts where
    e: "ensureConversation P st (ensure_conn io) (ensure_dbNow io) sid = Inr st1"
    and i: "insertMessage P st1 (user_insert io) (userArgs sid ?clean) = Inr (st2, uid, ts)"
    and r: "persistStage P env sys io st sid ?clean
          = replyStage P env sys io st2 reachedLog recent sid ?clean"
    by blast
  from p r replyStage_failure[OF fails, of P env sys st2 reachedLog recent sid ?clean]
  have out: "?out = \<lparr>final_store = st2, logged = reachedLog @ [''chat.message.llm_failed''],
      response = errorResponse 502 llmApology\<rparr>" by simp
  from insertMessage_appends[OF i] obtain i' c t where
    ins: "pgUuid P sid = Some c"
      "messages st2 = messages st1 @
          [\<lparr>stored_id = i', stored_conversation_id = c, stored_sender = User,
            stored_text = ?clean, stored_created_at = t\<rparr>]"
    by (auto simp: userArgs_def)
  let ?row = "\<lparr>stored_id = i', stored_conversation_id = c, stored_sender = User,
            stored_text = ?clean, stored_created_at = t\<rparr>"
  have m1: "messages st1 = messages st" using ensureConversation_messages[OF e] .
  have msgs: "messages st2 = messages st @ [?row]" using ins(2) m1 by simp
  have ai: "aiMessages st2 = aiMessages st" using msgs by (simp add: aiMessages_def)
  have fetch: "\<forall>limit. 0 < limit
        \<and> (\<forall>m \<in> set (messages st). stored_conversation_id m = stored_conversation_id ?row
               \<longrightarrow> orderKey m \<le> orderKey ?row)
        \<longrightarrow> (\<exists>page. getRecentMessages P st2 True sid limit = Inr page
               \<and> page \<noteq> [] \<and> last page = toRow P ?row \<and> sender (last page) = User)"
  proof (intro allI impI)
    fix limit :: int
    assume h: "0 < limit
        \<and> (\<forall>m \<in> set (messages st). stored_conversation_id m = stored_conversation_id ?row
               \<longrightarrow> orderKey m \<le> orderKey ?row)"
    let ?conv = "filter (\<lambda>m. stored_conversation_id m = c) (messages st)"
    have f: "filter (\<lambda>m. stored_conversation_id m = c) (messages st2) = ?conv @ [?row]"
      using msgs by simp
    have "\<forall>m \<in> set ?conv. orderKey m \<le> orderKey ?row" using h by simp
    from pageOf_newest[OF this, of limit P] h
    have pg: "pageOf P limit (?conv @ [?row]) \<noteq> []"
      "last (pageOf P limit (?conv @ [?row])) = toRow P ?row" by simp_all
    have "getRecentMessages P st2 True sid limit = Inr (pageOf P limit (?conv @ [?row]))"
      using ins(1) h f by (simp add: getRecentMessages_def)
    with pg show "\<exists>page. getRecentMessages P st2 True sid limit = Inr page
               \<and> page \<noteq> [] \<and> last page = toRow P ?row \<and> sender (last page) = User"
      by (simp add: toRow_def)
  qed
  have "\<exists>row. messages st2 = messages st @ [row]
           \<and> stored_sender row = User
           \<and> stored_text row = ?clean
           \<and> pgUuid P sid = Some (stored_conversation_id row)
           \<and> (\<forall>limit. 0 < limit
                 \<and> (\<forall>m \<in> set (messages st).
                       stored_conversation_id m = stored_conversation_id row
                       \<longrightarrow> orderKey m \<le> orderKey row)
                 \<longrightarrow> (\<exists>page. getRecentMessages P st2 True sid limit = Inr page
                        \<and> page \<noteq> [] \<and> last page = toRow P row
                        \<and> sender (last page) = User))"
    using msgs ins(1) fetch by (intro exI[of _ ?row]) simp
  with out ai req apology_distinct show ?thesis by simp
qed

lemma sample_request_parsed:
  "parseMessageBody isoPlatform sampleRequest = Some (js ''Any update?'', sampleSession)"
  "cleanText (js ''Any update?'') = js ''Any update?''"
  "length (js ''Any update?'') = 11"
  by (simp_all add: parseMessageBody_def sampleRequest_def sample_uuid trim_def cleanText_def
      stripInvisible_def isWhiteSpace_def js_def)

lemma sample_ensure:
  "ensureConversation isoPlatform sampleStore True t sampleSession = Inr sampleStore"
  by (simp add: ensureConversation_def sample_uuid sampleStore_def)

lemma sample_insert_user:
  "insertMessage isoPlatform sampleStore \<lparr>ins_conn = True, ins_uuid = idC, ins_clock = 1766944356250\<rparr>
     (userArgs sampleSession (js ''Any update?''))
   = Inr (sampleStore\<lparr>messages := [msgA, msgB, msgC]\<rparr>, idC, 1766944356250)"
proof -
  have "pgUuid isoPlatform idC = Some idC" by (simp add: isoPlatform_def)
  moreover have "pgTimestamptz isoPlatform (toISOString isoPlatform 1766944356250) = Some 1766944356250"
    by (simp add: isoPlatform_def parseTable_def sample_js_distinct)
  ultimately show ?thesis
    by (simp add: insertMessage_def userArgs_def sample_uuid sampleStore_def sample_msgs
        sample_js_distinct msgC_def)
qed

lemma sample_send_failing:
  "postMessage isoPlatform sampleEnv (js ''sys'') failingIo sampleStore sampleRequest =
     \<lparr>final_store = sampleStore\<lparr>messages := [msgA, msgB, msgC]\<rparr>,
      logged = [''chat.message.start'', ''chat.message.ensure_conversation.ok'',
                ''chat.message.get_recent.ok'', ''chat.message.insert_user.ok'',
                ''chat.message.llm_failed''],
      response = errorResponse 502 llmApology\<rparr>"
proof -
  have env: "CHAT_PAGE_SIZE sampleEnv = 10" "MAX_MESSAGE_CHARS sampleEnv = 2000"
    "OPENAI_API_KEY sampleEnv = Some (js ''sk-test'')"
    by (simp_all add: sampleEnv_def)
  have key: "js ''sk-test'' \<noteq> []" by (simp add: js_def)
  have gen: "generateSupportReply sampleEnv (js ''sys'') (invoke failingIo) h u
      = Inl (CompletionFailure Timeout)" for h u
    by (simp add: generateSupportReply_def env key failingIo_def)
  have io: "ensure_conn failingIo" "recent_conn failingIo"
    "user_insert failingIo = \<lparr>ins_conn = True, ins_uuid = idC, ins_clock = 1766944356250\<rparr>"
    by (simp_all add: failingIo_def)
  have "persistStage isoPlatform sampleEnv (js ''sys'') failingIo sampleStore sampleSession
      (js ''Any update?'') =
     \<lparr>final_store = sampleStore\<lparr>messages := [msgA, msgB, msgC]\<rparr>,
      logged = [''chat.message.start'', ''chat.message.ensure_conversation.ok'',
                ''chat.message.get_recent.ok'', ''chat.message.insert_user.ok'',
                ''chat.message.llm_failed''],
      response = errorResponse 502 llmApology\<rparr>"
    by (simp add: persistStage_def io sample_ensure env sample_recent sample_insert_user
        replyStage_def gen)
  moreover have "js ''Any update?'' \<noteq> []" by (simp add: js_def)
  ultimately show ?thesis
    by (simp add: postMessage_def Let_def sample_request_parsed env)
qed

lemma sample_recent_after:
  "getRecentMessages isoPlatform (sampleStore\<lparr>messages := [msgA, msgB, msgC]\<rparr>) True sampleSession 1
     = Inr [toRow isoPlatform msgC]"
proof -
  have "stored_conversation_id msgC = sampleSession" "orderKey msgA \<le> orderKey msgC"
    "orderKey msgB \<le> orderKey msgC" "\<not> orderKey msgC \<le> orderKey msgA"
    "\<not> orderKey msgC \<le> orderKey msgB"
    by (simp_all add: msgC_def orderKey_def msgA_def msgB_def)
  then show ?thesis
    by (simp add: getRecentMessages_def sample_uuid pageOf_def newestFirst_def sample_msgs)
qed

theorem completion_failure_keeps_user_message_witness:
  "response (postMessage isoPlatform sampleEnv (js ''sys'') failingIo sampleStore sampleRequest)
     = errorResponse 502 llmApology
   \<and> messages (final_store
        (postMessage isoPlatform sampleEnv (js ''sys'') failingIo sampleStore sampleRequest))
     = messages sampleStore @ [msgC]
   \<and> aiMessages (final_store
        (postMessage isoPlatform sampleEnv (js ''sys'') failingIo sampleStore sampleRequest))
     = [msgB]
   \<and> getRecentMessages isoPlatform (final_store
        (postMessage isoPlatform sampleEnv (js ''sys'') failingIo sampleStore sampleRequest))
        True sampleSession 1
     = Inr [toRow isoPlatform msgC]"
proof -
  have h1: "''chat.message.insert_user.ok'' \<in> set (logged
      (postMessage isoPlatform sampleEnv (js ''sys'') failingIo sampleStore sampleRequest))"
    by (simp add: sample_send_failing)
  have h2: "\<forall>msgs. \<exists>e. invoke failingIo msgs = Inl e"
    by (simp add: failingIo_def)
  have ai: "aiMessages sampleStore = [msgB]"
    by (simp add: aiMessages_def sampleStore_def msgA_def msgB_def)
  have ms: "messages sampleStore = [msgA, msgB]" by (simp add: sampleStore_def)
  have ai': "aiMessages (sampleStore\<lparr>messages := [msgA, msgB, msgC]\<rparr>) = [msgB]"
    by (simp add: aiMessages_def msgA_def msgB_def msgC_def)
  from completion_failure_keeps_user_message[OF h1 h2] ai ai' ms show ?thesis
    by (simp add: sample_send_failing sample_recent_after)
qed

lemma wide_env:
  "CHAT_PAGE_SIZE wideEnv = 10" "MAX_MESSAGE_CHARS wideEnv = 2000"
  "OPENAI_API_KEY wideEnv = Some (js ''sk-test'')" "LLM_MAX_CONTEXT_TOKENS wideEnv = 2000"
  by (simp_all add: wideEnv_def sampleEnv_def)

lemma sample_env:
  "CHAT_PAGE_SIZE sampleEnv = 10" "MAX_MESSAGE_CHARS sampleEnv = 2000"
  "OPENAI_API_KEY sampleEnv = Some (js ''sk-test'')" "LLM_MAX_CONTEXT_TOKENS sampleEnv = 2"
  by (simp_all add: sampleEnv_def)

lemma sample_key_truthy: "js ''sk-test'' \<noteq> []"
  by (simp add: js_def)

lemma sample_turns:
  "toTurn (toRow isoPlatform msgA) = \<lparr>role = User, content = js ''Where is my order?''\<rparr>"
  "toTurn (toRow isoPlatform msgB) = \<lparr>role = Ai, content = js ''It ships tomorrow.''\<rparr>"
  by (simp_all add: sample_rows toTurn_def)

lemma sample_turn_costs:
  "estimateTokens \<lparr>role = User, content = js ''Any update?''\<rparr> = 3"
  "estimateTokens \<lparr>role = Ai, content = js ''It ships tomorrow.''\<rparr> = 5"
  "estimateTokens \<lparr>role = User, content = js ''Where is my order?''\<rparr> = 5"
  by (simp_all add: estimateTokens_div js_def)

lemma sample_picked_wide:
  "takeRecentWithinTokenBudget 2000
     [\<lparr>role = User, content = js ''Any update?''\<rparr>,
      \<lparr>role = Ai, content = js ''It ships tomorrow.''\<rparr>,
      \<lparr>role = User, content = js ''Where is my order?''\<rparr>]
   = \<lparr>selectedNewestToOldest =
        [\<lparr>role = User, content = js ''Any update?''\<rparr>,
         \<lparr>role = Ai, content = js ''It ships tomorrow.''\<rparr>,
         \<lparr>role = User, content = js ''Where is my order?''\<rparr>],
      usedTokens = 13\<rparr>"
  by (simp add: takeRecentWithinTokenBudget_def sample_turn_costs)

lemma sample_picked_narrow:
  "takeRecentWithinTokenBudget 2
     [\<lparr>role = User, content = js ''Any update?''\<rparr>,
      \<lparr>role = Ai, content = js ''It ships tomorrow.''\<rparr>,
      \<lparr>role = User, content = js ''Where is my order?''\<rparr>]
   = \<lparr>selectedNewestToOldest = [], usedTokens = 0\<rparr>"
  by (simp add: takeRecentWithinTokenBudget_def sample_turn_costs)

lemma sample_reply_text: "replyText (Some (js '' Soon. '')) = js ''Soon.''"
  by (simp add: replyText_def trim_def isWhiteSpace_def js_def)

lemma sample_insert_ai:
  "insertMessage isoPlatform (sampleStore\<lparr>messages := [msgA, msgB, msgC]\<rparr>)
     \<lparr>ins_conn = True, ins_uuid = idD, ins_clock = 1766944356250\<rparr>
     (aiArgs sampleSession (js ''Soon.''))
   = Inr (sampleStore\<lparr>messages := [msgA, msgB, msgC, msgD]\<rparr>, idD, 1766944356250)"
proof -
  have "pgUuid isoPlatform idD = Some idD" by (simp add: isoPlatform_def)
  moreover have "pgTimestamptz isoPlatform (toISOString isoPlatform 1766944356250) = Some 1766944356250"
    by (simp add: isoPlatform_def parseTable_def sample_js_distinct)
  moreover have "idD \<noteq> idA" "idD \<noteq> idB" "idD \<noteq> idC"
    by (simp_all add: idA_def idB_def idC_def idD_def js_def)
  moreover have "stored_id msgC = idC" by (simp add: msgC_def)
  ultimately show ?thesis
    by (simp add: insertMessage_def aiArgs_def sample_uuid sampleStore_def sample_msgs msgD_def)
qed

lemma sample_send_replying:
  "postMessage isoPlatform wideEnv (js ''sys'') replyingIo sampleStore sampleRequest =
     \<lparr>final_store = sampleStore\<lparr>messages := [msgA, msgB, msgC, msgD]\<rparr>,
      logged = [''chat.message.start'', ''chat.message.ensure_conversation.ok'',
                ''chat.message.get_recent.ok'', ''chat.message.insert_user.ok'',
                ''chat.message.llm.ok'', ''chat.message.insert_ai.ok'',
                ''chat.message.finish''],
      response = okResponse (ReplyBody (js ''Soon.'') sampleSession)\<rparr>"
proof -
  have io: "ensure_conn replyingIo" "recent_conn replyingIo"
    "user_insert replyingIo = \<lparr>ins_conn = True, ins_uuid = idC, ins_clock = 1766944356250\<rparr>"
    "ai_insert replyingIo = \<lparr>ins_conn = True, ins_uuid = idD, ins_clock = 1766944356250\<rparr>"
    by (simp_all add: replyingIo_def)
  have lc: "lcMessages wideEnv (js ''sys'')
       [\<lparr>role = User, content = js ''Where is my order?''\<rparr>,
        \<lparr>role = Ai, content = js ''It ships tomorrow.''\<rparr>] (js ''Any update?'')
     = [SystemMessage (js ''sys''), HumanMessage (js ''Where is my order?''),
        AIMessage (js ''It ships tomorrow.''), HumanMessage (js ''Any update?'')]"
    by (simp add: lcMessages_def candidateTurns_def contextBudget_def wide_env
        sample_picked_wide)
  have inv: "invoke replyingIo [SystemMessage (js ''sys''), HumanMessage (js ''Where is my order?''),
        AIMessage (js ''It ships tomorrow.''), HumanMessage (js ''Any update?'')]
      = Inr (Some (js '' Soon. ''))"
    by (simp add: replyingIo_def)
  have tr: "trim (js '' Soon. '') = js ''Soon.''" "js ''Soon.'' \<noteq> []"
    by (simp_all add: trim_def isWhiteSpace_def js_def)
  have gen: "generateSupportReply wideEnv (js ''sys'') (invoke replyingIo)
       [\<lparr>role = User, content = js ''Where is my order?''\<rparr>,
        \<lparr>role = Ai, content = js ''It ships tomorrow.''\<rparr>] (js ''Any update?'')
     = Inr (js ''Soon.'')"
    by (simp add: generateSupportReply_def wide_env sample_key_truthy lc inv tr)
  have rs: "replyStage isoPlatform wideEnv (js ''sys'') replyingIo
       (sampleStore\<lparr>messages := [msgA, msgB, msgC]\<rparr>) lg
       [toRow isoPlatform msgA, toRow isoPlatform msgB] sampleSession (js ''Any update?'')
     = \<lparr>final_store = sampleStore\<lparr>messages := [msgA, msgB, msgC, msgD]\<rparr>,
        logged = lg @ [''chat.message.llm.ok'', ''chat.message.insert_ai.ok'',
                ''chat.message.finish''],
        response = okResponse (ReplyBody (js ''Soon.'') sampleSession)\<rparr>" for lg
    by (simp add: replyStage_def Let_def sample_turns gen io sample_insert_ai)
  have "persistStage isoPlatform wideEnv (js ''sys'') replyingIo sampleStore sampleSession
      (js ''Any update?'') =
     \<lparr>final_store = sampleStore\<lparr>messages := [msgA, msgB, msgC, msgD]\<rparr>,
      logged = [''chat.message.start'', ''chat.message.ensure_conversation.ok'',
                ''chat.message.get_recent.ok'', ''chat.message.insert_user.ok'',
                ''chat.message.llm.ok'', ''chat.message.insert_ai.ok'',
                ''chat.message.finish''],
      response = okResponse (ReplyBody (js ''Soon.'') sampleSession)\<rparr>"
    by (simp add: persistStage_def io sample_ensure wide_env sample_recent sample_insert_user rs)
  moreover have "js ''Any update?'' \<noteq> []" by (simp add: js_def)
  ultimately show ?thesis
    by (simp add: postMessage_def Let_def sample_request_parsed wide_env)
qed

lemma sample_clean: "cleanText (trim (js '' Any update? '')) = js ''Any update?''"
  by (simp add: trim_def cleanText_def stripInvisible_def isWhiteSpace_def js_def)

lemma replyStage_eq:
  assumes "OPENAI_API_KEY env \<noteq> None" "OPENAI_API_KEY env \<noteq> Some []"
  shows "replyStage P env sys io st2 lg recent sid clean =
     (case invoke io
             (SystemMessage sys #
              map (\<lambda>m. if role m = User then HumanMessage (content m) else AIMessage (content m))
                (rev (selectedNewestToOldest
                   (takeRecentWithinTokenBudget (max 1 (LLM_MAX_CONTEXT_TOKENS env))
                      (\<lparr>role = User, content = clean\<rparr> # rev (map toTurn recent)))))) of
        Inl e \<Rightarrow>
          \<lparr>final_store = st2, logged = lg @ [''chat.message.llm_failed''],
           response = errorResponse 502 llmApology\<rparr>
      | Inr res \<Rightarrow>
          (case insertMessage P st2 (ai_insert io) (aiArgs sid (replyText res)) of
             Inl e' \<Rightarrow>
               \<lparr>final_store = st2,
                logged = lg @ [''chat.message.llm.ok'', ''chat.message.llm_failed''],
                response = errorResponse 502 llmApology\<rparr>
           | Inr (st3, x) \<Rightarrow>
               \<lparr>final_store = st3,
                logged = lg @ [''chat.message.llm.ok'', ''chat.message.insert_ai.ok'',
                               ''chat.message.finish''],
                response = okResponse (ReplyBody (replyText res) sid)\<rparr>))"
  using assms
  by (auto simp: replyStage_def generateSupportReply_def lcMessages_def candidateTurns_def
      contextBudget_def replyText_def Let_def split: sum.splits)

lemma replyStage_no_key:
  assumes "OPENAI_API_KEY env = None \<or> OPENAI_API_KEY env = Some []"
  shows "replyStage P env sys io st2 lg recent sid clean =
     \<lparr>final_store = st2, logged = lg @ [''chat.message.llm_failed''],
      response = errorResponse 502 llmApology\<rparr>"
  using assms by (auto simp: replyStage_def generateSupportReply_def Let_def)

text \<open>
  Claim C6. Take a run of the handler that persisted the user's message. The text handed
  on is the cleaned message, the history is the page read before the insert, and the
  candidate list given to the budgeter is the live message followed by the reversed
  history, under the budget \<open>max(1, LLM_MAX_CONTEXT_TOKENS)\<close>. With an API key
  configured the outcome of the run is determined by the completion call on the system
  message followed by the selected turns, oldest first: a failure of the call or of the
  insert of the reply gives 502, otherwise the reply is stored and returned. Without a key
  the run ends in 502 before any budgeting. When the live message alone fits the budget it
  is selected: it is the newest selected turn, its cost is part of the used units, and it
  is the last message of the prompt. When it alone exceeds the budget the selection is
  empty, the used units are 0 and the prompt is the system message alone.
\<close>

theorem send_flow_prepends_live_message:
  assumes "''chat.message.insert_user.ok'' \<in> set (logged (postMessage P env sys io st req))"
  shows "\<exists>m sid st1 recent st2 uid ts.
       body_message req = Some m \<and> body_sessionId req = Some sid
     \<and> ensureConversation P st (ensure_conn io) (ensure_dbNow io) sid = Inr st1
     \<and> getRecentMessages P st1 (recent_conn io) sid (CHAT_PAGE_SIZE env) = Inr recent
     \<and> insertMessage P st1 (user_insert io) (userArgs sid (cleanText (trim m)))
          = Inr (st2, uid, ts)
     \<and> (let live = \<lparr>role = User, content = cleanText (trim m)\<rparr>;
            budget = max 1 (LLM_MAX_CONTEXT_TOKENS env);
            picked = takeRecentWithinTokenBudget budget (live # rev (map toTurn recent));
            prompt = SystemMessage sys #
              map (\<lambda>t. if role t = User then HumanMessage (content t) else AIMessage (content t))
                (rev (selectedNewestToOldest picked))
        in (OPENAI_API_KEY env = None \<or> OPENAI_API_KEY env = Some [] \<longrightarrow>
              postMessage P env sys io st req =
                \<lparr>final_store = st2, logged = reachedLog @ [''chat.message.llm_failed''],
                 response = errorResponse 502 llmApology\<rparr>)
         \<and> (OPENAI_API_KEY env \<noteq> None \<and> OPENAI_API_KEY env \<noteq> Some [] \<longrightarrow>
              postMessage P env sys io st req =
                (case invoke io prompt of
                   Inl e \<Rightarrow>
                     \<lparr>final_store = st2, logged = reachedLog @ [''chat.message.llm_failed''],
                      response = errorResponse 502 llmApology\<rparr>
                 | Inr res \<Rightarrow>
                     (case insertMessage P st2 (ai_insert io) (aiArgs sid (replyText res)) of
                        Inl e' \<Rightarrow>
                          \<lparr>final_store = st2,
                           logged = reachedLog @ [''chat.message.llm.ok'',
                                                  ''chat.message.llm_failed''],
                           response = errorResponse 502 llmApology\<rparr>
                      | Inr (st3, x) \<Rightarrow>
                          \<lparr>final_store = st3,
                           logged = reachedLog @ [''chat.message.llm.ok'',
                                                  ''chat.message.insert_ai.ok'',
                                                  ''chat.message.finish''],
                           response = okResponse (ReplyBody (replyText res) sid)\<rparr>)))
         \<and> (estimateTokens live \<le> budget \<longrightarrow>
              selectedNewestToOldest picked \<noteq> [] \<and> hd (selectedNewestToOldest picked) = live
              \<and> estimateTokens live \<le> usedTokens picked
              \<and> last prompt = HumanMessage (cleanText (trim m)))
         \<and> (budget < estimateTokens live \<longrightarrow>
              selectedNewestToOldest picked = [] \<and> usedTokens picked = 0
              \<and> prompt = [SystemMessage sys]))"
proof -
  let ?out = "postMessage P env sys io st req"
  from postMessage_reaches_persist[OF assms] obtain m sid where
    req: "body_message req = Some m" "body_sessionId req = Some sid"
    and p: "?out = persistStage P env sys io st sid (cleanText (trim m))"
    by blast
  let ?clean = "cleanText (trim m)"
  from assms p
  have "''chat.message.insert_user.ok'' \<in> set (logged (persistStage P env sys io st sid ?clean))"
    by simp
  from persistStage_reaches_reply[OF this] obtain st1 recent st2 uid ts where
    e: "ensureConversation P st (ensure_conn io) (ensure_dbNow io) sid = Inr st1"
    and g: "getRecentMessages P st1 (recent_conn io) sid (CHAT_PAGE_SIZE env) = Inr recent"
    and i: "insertMessage P st1 (user_insert io) (userArgs sid ?clean) = Inr (st2, uid, ts)"
    and r: "persistStage P env sys io st sid ?clean
          = replyStage P env sys io st2 reachedLog recent sid ?clean"
    by blast
  from p r have out: "?out = replyStage P env sys io st2 reachedLog recent sid ?clean" by simp
  let ?live = "\<lparr>role = User, content = ?clean\<rparr>"
  let ?budget = "max 1 (LLM_MAX_CONTEXT_TOKENS env)"
  let ?picked = "takeRecentWithinTokenBudget ?budget (?live # rev (map toTurn recent))"
  let ?sel = "selectedNewestToOldest ?picked"
  let ?prompt = "SystemMessage sys #
      map (\<lambda>t. if role t = User then HumanMessage (content t) else AIMessage (content t))
        (rev ?sel)"
  have nokey: "OPENAI_API_KEY env = None \<or> OPENAI_API_KEY env = Some [] \<longrightarrow>
      ?out = \<lparr>final_store = st2, logged = reachedLog @ [''chat.message.llm_failed''],
               response = errorResponse 502 llmApology\<rparr>"
    using out replyStage_no_key[of env P sys io st2 reachedLog recent sid ?clean] by simp
  have key: "OPENAI_API_KEY env \<noteq> None \<and> OPENAI_API_KEY env \<noteq> Some [] \<longrightarrow>
      ?out = (case invoke io ?prompt of
                   Inl e \<Rightarrow>
                     \<lparr>final_store = st2, logged = reachedLog @ [''chat.message.llm_failed''],
                      response = errorResponse 502 llmApology\<rparr>
                 | Inr res \<Rightarrow>
                     (case insertMessage P st2 (ai_insert io) (aiArgs sid (replyText res)) of
                        Inl e' \<Rightarrow>
                          \<lparr>final_store = st2,
                           logged = reachedLog @ [''chat.message.llm.ok'',
                                                  ''chat.message.llm_failed''],
                           response = errorResponse 502 llmApology\<rparr>
                      | Inr (st3, x) \<Rightarrow>
                          \<lparr>final_store = st3,
                           logged = reachedLog @ [''chat.message.llm.ok'',
                                                  ''chat.message.insert_ai.ok'',
                                                  ''chat.message.finish''],
                           response = okResponse (ReplyBody (replyText res) sid)\<rparr>))"
    using out replyStage_eq[of env P sys io st2 reachedLog recent sid ?clean] by simp
  have fits: "estimateTokens ?live \<le> ?budget \<longrightarrow>
      ?sel \<noteq> [] \<and> hd ?sel = ?live \<and> estimateTokens ?live \<le> usedTokens ?picked
      \<and> last ?prompt = HumanMessage ?clean"
  proof
    assume le: "estimateTokens ?live \<le> ?budget"
    from first_turn_fits[OF le, of "rev (map toTurn recent)"]
    have ne: "?sel \<noteq> []" and h: "hd ?sel = ?live" by simp_all
    from ne h have l: "last (rev ?sel) = ?live" by (simp add: last_rev)
    from ne l have lp: "last ?prompt = HumanMessage ?clean" by (simp add: last_map)
    from ne h obtain rest where sel: "?sel = ?live # rest" by (cases ?sel) auto
    from take_spec_len[of ?budget "?live # rev (map toTurn recent)"]
    have "usedTokens ?picked = turnsCost ?sel" by blast
    with sel have "usedTokens ?picked = estimateTokens ?live + turnsCost rest"
      by (simp add: turnsCost_Cons)
    with turnsCost_nonneg[of rest] have "estimateTokens ?live \<le> usedTokens ?picked" by simp
    with ne h lp show "?sel \<noteq> [] \<and> hd ?sel = ?live \<and> estimateTokens ?live \<le> usedTokens ?picked
      \<and> last ?prompt = HumanMessage ?clean" by simp
  qed
  have big: "?budget < estimateTokens ?live \<longrightarrow>
      ?sel = [] \<and> usedTokens ?picked = 0 \<and> ?prompt = [SystemMessage sys]"
  proof
    assume gt: "?budget < estimateTokens ?live"
    from first_turn_too_big[OF gt, of "rev (map toTurn recent)"]
    show "?sel = [] \<and> usedTokens ?picked = 0 \<and> ?prompt = [SystemMessage sys]" by simp
  qed
  show ?thesis
    apply (rule exI[of _ m], rule exI[of _ sid], rule exI[of _ st1], rule exI[of _ recent],
        rule exI[of _ st2], rule exI[of _ uid], rule exI[of _ ts])
    unfolding Let_def
    using req e g i nokey key fits big by blast
qed

theorem send_flow_prepends_live_message_witness:
  "response (postMessage isoPlatform wideEnv (js ''sys'') replyingIo sampleStore sampleRequest)
     = okResponse (ReplyBody (js ''Soon.'') sampleSession)
   \<and> hd (selectedNewestToOldest (takeRecentWithinTokenBudget 2000
        (\<lparr>role = User, content = js ''Any update?''\<rparr> #
         rev (map toTurn [toRow isoPlatform msgA, toRow isoPlatform msgB]))))
     = \<lparr>role = User, content = js ''Any update?''\<rparr>
   \<and> invoke replyingIo
        [SystemMessage (js ''sys''), HumanMessage (js ''Where is my order?''),
         AIMessage (js ''It ships tomorrow.''), HumanMessage (js ''Any update?'')]
     = Inr (Some (js '' Soon. ''))
   \<and> response (postMessage isoPlatform sampleEnv (js ''sys'') failingIo sampleStore sampleRequest)
     = errorResponse 502 llmApology
   \<and> takeRecentWithinTokenBudget 2
        (\<lparr>role = User, content = js ''Any update?''\<rparr> #
         rev (map toTurn [toRow isoPlatform msgA, toRow isoPlatform msgB]))
     = \<lparr>selectedNewestToOldest = [], usedTokens = 0\<rparr>
   \<and> invoke failingIo [SystemMessage (js ''sys'')] = Inl Timeout"
proof -
  have h1: "''chat.message.insert_user.ok'' \<in> set (logged
      (postMessage isoPlatform wideEnv (js ''sys'') replyingIo sampleStore sampleRequest))"
    by (simp add: sample_send_replying)
  have h2: "''chat.message.insert_user.ok'' \<in> set (logged
      (postMessage isoPlatform sampleEnv (js ''sys'') failingIo sampleStore sampleRequest))"
    by (simp add: sample_send_failing)
  have rq: "body_message sampleRequest = Some (js '' Any update? '')"
    "body_sessionId sampleRequest = Some sampleSession"
    by (simp_all add: sampleRequest_def)
  have io: "ensure_conn replyingIo" "recent_conn replyingIo"
    "ensure_conn failingIo" "recent_conn failingIo"
    by (simp_all add: replyingIo_def failingIo_def)
  have fits: "estimateTokens \<lparr>role = User, content = js ''Any update?''\<rparr>
      \<le> max 1 (LLM_MAX_CONTEXT_TOKENS wideEnv)"
    by (simp add: sample_turn_costs wide_env)
  have big: "max 1 (LLM_MAX_CONTEXT_TOKENS sampleEnv)
      < estimateTokens \<lparr>role = User, content = js ''Any update?''\<rparr>"
    by (simp add: sample_turn_costs sample_env)
  from send_flow_prepends_live_message[OF h1] fits
  have a: "hd (selectedNewestToOldest (takeRecentWithinTokenBudget 2000
        (\<lparr>role = User, content = js ''Any update?''\<rparr> #
         rev (map toTurn [toRow isoPlatform msgA, toRow isoPlatform msgB]))))
     = \<lparr>role = User, content = js ''Any update?''\<rparr>"
    by (auto simp: rq sample_clean io sample_ensure sample_recent wide_env sample_turns Let_def)
  from send_flow_prepends_live_message[OF h2] big
  have b: "takeRecentWithinTokenBudget 2
        (\<lparr>role = User, content = js ''Any update?''\<rparr> #
         rev (map toTurn [toRow isoPlatform msgA, toRow isoPlatform msgB]))
     = \<lparr>selectedNewestToOldest = [], usedTokens = 0\<rparr>"
    by (auto simp: rq sample_clean io sample_ensure sample_recent sample_env sample_turns Let_def)
  have c: "invoke replyingIo
        [SystemMessage (js ''sys''), HumanMessage (js ''Where is my order?''),
         AIMessage (js ''It ships tomorrow.''), HumanMessage (js ''Any update?'')]
     = Inr (Some (js '' Soon. ''))"
    "invoke failingIo [SystemMessage (js ''sys'')] = Inl Timeout"
    by (simp_all add: replyingIo_def failingIo_def)
  from a b c show ?thesis by (simp add: sample_send_replying sample_send_failing)
qed

lemma replyStage_log_tail:
  "\<exists>xs. logged (replyStage P env sys io st lg recent sid clean) = lg @ xs
     \<and> set xs \<subseteq> {''chat.message.llm_failed'', ''chat.message.llm.ok'',
                  ''chat.message.insert_ai.ok'', ''chat.message.finish''}"
  by (auto simp: replyStage_def Let_def split: sum.splits)

lemma history_read_always_first:
  assumes "''chat.message.insert_user.ok'' \<in> set (logged (postMessage P env sys io st req))"
  shows "precedes ''chat.message.get_recent.ok'' ''chat.message.insert_user.ok''
           (logged (postMessage P env sys io st req))
     \<and> \<not> precedes ''chat.message.insert_user.ok'' ''chat.message.get_recent.ok''
           (logged (postMessage P env sys io st req))"
proof -
  let ?out = "postMessage P env sys io st req"
  from postMessage_reaches_persist[OF assms] obtain m sid where
    p: "?out = persistStage P env sys io st sid (cleanText (trim m))"
    by blast
  from assms p
  have "''chat.message.insert_user.ok''
      \<in> set (logged (persistStage P env sys io st sid (cleanText (trim m))))"
    by simp
  from persistStage_reaches_reply[OF this] p obtain st2 recent where
    out: "?out = replyStage P env sys io st2 reachedLog recent sid (cleanText (trim m))"
    by auto
  from replyStage_log_tail[of P env sys io st2 reachedLog recent sid "cleanText (trim m)"] out
  obtain xs where xs: "logged ?out = reachedLog @ xs"
    "set xs \<subseteq> {''chat.message.llm_failed'', ''chat.message.llm.ok'',
                  ''chat.message.insert_ai.ok'', ''chat.message.finish''}"
    by auto
  from xs(2) have "''chat.message.get_recent.ok'' \<notin> set xs" by auto
  with xs(1) show ?thesis by (simp add: precedes_def reachedLog_def)
qed

lemma failed_history_read_persists_nothing:
  assumes "parseMessageBody P req = Some (message, sid)"
    and "cleanText message \<noteq> []"
    and "int (length (cleanText message)) \<le> MAX_MESSAGE_CHARS env"
    and "ensureConversation P st (ensure_conn io) (ensure_dbNow io) sid = Inr st1"
    and "getRecentMessages P st1 (recent_conn io) sid (CHAT_PAGE_SIZE env) = Inl e"
  shows "postMessage P env sys io st req =
       \<lparr>final_store = st1,
        logged = [''chat.message.start'', ''chat.message.ensure_conversation.ok'',
                  ''chat.message.failed''],
        response = errorResponse 500 somethingWentWrong\<rparr>
     \<and> messages st1 = messages st"
  using assms ensureConversation_messages[OF assms(4)]
  by (simp add: postMessage_def Let_def persistStage_def)

text \<open>
  Claim C2 describes an order the handler does not have: the docstring of the handler and
  the description of the send flow say that the user's message is saved and the recent history fetched
  afterwards, but the handler reads the recent messages first and inserts the user's
  message afterwards. In the first run below the read is logged and the insert is not
  logged before it. In the second run the read fails: the outer \<open>catch\<close> answers 500,
  and the store is left as it was, so the user's message is lost although nothing was
  wrong with the message or with the insert. Lemma \<open>history_read_always_first\<close>
  shows the order for every run that persists the message, and lemma
  \<open>failed_history_read_persists_nothing\<close> the loss for every failed read.
\<close>

theorem failed_history_read_loses_user_message:
  "''chat.message.get_recent.ok'' \<in> set (logged
      (postMessage isoPlatform sampleEnv (js ''sys'') failingIo sampleStore sampleRequest))
   \<and> \<not> precedes ''chat.message.insert_user.ok'' ''chat.message.get_recent.ok'' (logged
      (postMessage isoPlatform sampleEnv (js ''sys'') failingIo sampleStore sampleRequest))
   \<and> postMessage isoPlatform sampleEnv (js ''sys'') readFailingIo sampleStore sampleRequest =
       \<lparr>final_store = sampleStore,
        logged = [''chat.message.start'', ''chat.message.ensure_conversation.ok'',
                  ''chat.message.failed''],
        response = errorResponse 500 somethingWentWrong\<rparr>"
proof -
  have io: "ensure_conn readFailingIo" "\<not> recent_conn readFailingIo"
    by (simp_all add: readFailingIo_def failingIo_def)
  have "persistStage isoPlatform sampleEnv (js ''sys'') readFailingIo sampleStore sampleSession
      (js ''Any update?'') =
     \<lparr>final_store = sampleStore,
      logged = [''chat.message.start'', ''chat.message.ensure_conversation.ok'',
                ''chat.message.failed''],
      response = errorResponse 500 somethingWentWrong\<rparr>"
    by (simp add: persistStage_def io sample_ensure getRecentMessages_def)
  moreover have "js ''Any update?'' \<noteq> []" by (simp add: js_def)
  ultimately have "postMessage isoPlatform sampleEnv (js ''sys'') readFailingIo sampleStore sampleRequest =
       \<lparr>final_store = sampleStore,
        logged = [''chat.message.start'', ''chat.message.ensure_conversation.ok'',
                  ''chat.message.failed''],
        response = errorResponse 500 somethingWentWrong\<rparr>"
    by (simp add: postMessage_def Let_def sample_request_parsed sample_env)
  then show ?thesis by (simp add: sample_send_failing precedes_def)
qed

section \<open>Properties of the history walk\<close>

lemma toIso_render_irrelevant: "toIso (P\<lparr>pgTimestampOut := f\<rparr>) s = toIso P s"
  by (simp add: toIso_def Let_def split: option.splits)

lemma parseCursor_render_irrelevant:
  "parseCursor (P\<lparr>pgTimestampOut := f\<rparr>) c = parseCursor P c"
  by (auto simp: parseCursor_def toIso_render_irrelevant Let_def
      split: option.splits list.splits)

lemma date_uuid:
  "pgUuid datePlatform sampleSession = Some sampleSession"
  "pgUuid datePlatform idB = Some idB"
  "zodUuid datePlatform sampleSession"
  "pgTimestamptz datePlatform iso000 = Some 1766944354000"
  by (simp_all add: datePlatform_def isoPlatform_def parseTable_def)

lemma date_rows:
  "toRow datePlatform msgA =
     \<lparr>id_col = idA, conversation_id = sampleSession, sender = User,
      text_col = js ''Where is my order?'', created_at = dateText\<rparr>"
  "toRow datePlatform msgB =
     \<lparr>id_col = idB, conversation_id = sampleSession, sender = Ai,
      text_col = js ''It ships tomorrow.'', created_at = dateText\<rparr>"
  by (simp_all add: toRow_def msgA_def msgB_def datePlatform_def)

lemma date_first_page:
  "getHistory datePlatform sampleEnv True sampleStore (sampleQuery None (Some 1))
     = pageResult (Inr [toRow datePlatform msgB])"
proof -
  have q: "parseHistoryQuery datePlatform (sampleQuery None (Some 1))
      = Some (sampleSession, None, Some 1)"
    by (simp add: parseHistoryQuery_def sampleQuery_def date_uuid)
  have "getRecentMessages datePlatform sampleStore True sampleSession 1
      = Inr [toRow datePlatform msgB]"
    by (simp add: getRecentMessages_def date_uuid sampleStore_def pageOf_def newestFirst_def
        sample_msgs)
  with getHistory_no_cursor[OF q, of sampleEnv True sampleStore] show ?thesis
    by (simp add: pageResult_def)
qed

lemma date_second_page:
  "getHistory datePlatform sampleEnv True sampleStore
      (sampleQuery (Some (dateText @ js ''|'' @ idB)) (Some 1))
     = pageResult (Inr [])"
proof -
  let ?c = "dateText @ js ''|'' @ idB"
  have q: "parseHistoryQuery datePlatform (sampleQuery (Some ?c) (Some 1))
      = Some (sampleSession, Some ?c, Some 1)"
    by (simp add: parseHistoryQuery_def sampleQuery_def date_uuid)
  have ne: "?c \<noteq> []" by (simp add: sample_nonempty)
  have z: "zodDatetime isoPlatform iso000" "zodUuid isoPlatform idB"
    by (simp_all add: isoPlatform_def parseTable_def)
  have "parseCursor isoPlatform (Some ?c) = Some \<lparr>createdAt = iso000, parsedId = Some idB\<rparr>"
    using z sample_nonempty
    by (simp add: parseCursor_two[OF ne] sample_split sample_no_bar sample_toIso sample_trim)
  then have pc: "parseCursor datePlatform (Some ?c)
      = Some \<lparr>createdAt = iso000, parsedId = Some idB\<rparr>"
    by (simp add: datePlatform_def parseCursor_render_irrelevant)
  have "getOlderMessages datePlatform sampleStore True
      \<lparr>older_conversationId = sampleSession, cursorCreatedAt = iso000,
       cursorId = Some idB, older_limit = 1\<rparr> = Inr []"
    by (simp add: getOlderMessages_def date_uuid sample_nonempty sampleStore_def pageOf_def
        newestFirst_def sample_msgs)
  with getHistory_with_cursor[OF q pc, of sampleEnv True sampleStore] show ?thesis
    by (simp add: pageResult_def)
qed

text \<open>
  Claim C3 fails when \<open>created_at\<close> reaches the handler as the text that
  \<open>Date.prototype.toString\<close> produces, the form quoted in the comment of
  \<open>parseCursor\<close>: that text has whole seconds, the stored timestamps have
  milliseconds. Two messages of one second, walked with \<open>limit = 1\<close>: the first page
  holds the newer message, its cursor decodes to the start of the second, the second page
  is empty, and the walk ends without the older message.
\<close>

theorem walk_skips_message_of_same_second:
  "walkHistory 3 datePlatform sampleEnv sampleStore sampleSession (Some 1) None
     = Some [[toRow datePlatform msgB], []]
   \<and> msgA \<in> set (messages sampleStore)
   \<and> stored_conversation_id msgA = sampleSession
   \<and> toRow datePlatform msgA \<notin> set (concat [[toRow datePlatform msgB], []])"
proof -
  have s: "walkHistory 3 P env st sid lim c = walkHistory (Suc (Suc (Suc 0))) P env st sid lim c"
    for P env st sid lim c by (simp add: numeral_3_eq_3)
  have p1: "h_response (getHistory datePlatform sampleEnv True sampleStore
       \<lparr>q_sessionId = Some sampleSession, q_cursor = None, q_limit = Some 1\<rparr>)
     = okResponse (HistoryBody [toRow datePlatform msgB] (Some (dateText @ js ''|'' @ idB)))"
    using date_first_page
    by (simp add: sampleQuery_def pageResult_def nextCursorOf_def date_rows)
  have p2: "h_response (getHistory datePlatform sampleEnv True sampleStore
       \<lparr>q_sessionId = Some sampleSession, q_cursor = Some (dateText @ js ''|'' @ idB),
        q_limit = Some 1\<rparr>)
     = okResponse (HistoryBody [] None)"
    using date_second_page
    by (simp add: sampleQuery_def pageResult_def nextCursorOf_def)
  have "walkHistory 3 datePlatform sampleEnv sampleStore sampleSession (Some 1) None
     = Some [[toRow datePlatform msgB], []]"
    by (simp add: s p1 p2 okResponse_def)
  moreover have "toRow datePlatform msgA \<noteq> toRow datePlatform msgB"
    by (simp add: date_rows sample_js_distinct)
  ultimately show ?thesis by (simp add: sampleStore_def sample_msgs)
qed

lemma orderKey_distinct:
  assumes "distinct (map stored_id ms)"
  shows "distinct (map orderKey ms)"
proof -
  have "map stored_id ms = map snd (map orderKey ms)" by (simp add: orderKey_def)
  with assms show ?thesis by (metis distinct_map)
qed

lemma chronological_strict:
  assumes "distinct (map stored_id (messages st))"
  shows "sorted_wrt (<) (map orderKey (chronological st c))"
proof -
  have "distinct (map stored_id (conversationMessages st c))"
    using assms by (simp add: conversationMessages_def distinct_map_filter)
  then have "distinct (map orderKey (conversationMessages st c))" by (rule orderKey_distinct)
  then have "distinct (map orderKey (chronological st c))"
    by (simp add: chronological_def distinct_map inj_on_def)
  moreover have "sorted (map orderKey (chronological st c))"
    by (simp add: chronological_def)
  ultimately show ?thesis by (simp add: strict_sorted_iff)
qed

lemma filter_less_take:
  fixes f :: "'a \<Rightarrow> 'b::linorder"
  assumes "sorted_wrt (<) (map f L)" "k < length L"
  shows "filter (\<lambda>x. f x < f (L ! k)) L = take k L"
proof -
  have L: "L = take k L @ L ! k # drop (Suc k) L"
    using assms(2) by (simp add: id_take_nth_drop)
  have s: "\<And>i j. i < j \<Longrightarrow> j < length L \<Longrightarrow> f (L ! i) < f (L ! j)"
    using assms(1) by (simp add: sorted_wrt_iff_nth_less)
  have a: "\<forall>x \<in> set (take k L). f x < f (L ! k)"
  proof
    fix x assume "x \<in> set (take k L)"
    then obtain i where "i < k" "x = L ! i"
      using assms(2) by (auto simp: in_set_conv_nth)
    with s[of i k] assms(2) show "f x < f (L ! k)" by simp
  qed
  have b: "\<forall>x \<in> set (drop (Suc k) L). \<not> f x < f (L ! k)"
  proof
    fix x assume "x \<in> set (drop (Suc k) L)"
    then obtain i where i: "i < length L - Suc k" "x = L ! (Suc k + i)"
      by (auto simp: in_set_conv_nth)
    from i have "Suc k + i < length L" by simp
    from s[of k "Suc k + i"] this have "f (L ! k) < f (L ! (Suc k + i))" by simp
    with \<open>x = L ! (Suc k + i)\<close> show "\<not> f x < f (L ! k)" by simp
  qed
  have "filter (\<lambda>x. f x < f (L ! k)) (take k L @ L ! k # drop (Suc k) L) = take k L"
    using a b by (simp add: filter_empty_conv)
  with L show ?thesis by simp
qed

lemma pageOf_drop:
  "pageOf P n xs = map (toRow P) (drop (length xs - nat n) (sort_key orderKey xs))"
proof -
  have "rev (take (nat n) (rev (sort_key orderKey xs)))
      = drop (length xs - nat n) (sort_key orderKey xs)"
    by (simp add: rev_take)
  then show ?thesis by (simp add: pageOf_def newestFirst_def rev_map)
qed

lemma walkReady_query:
  assumes "walkReady P env st sid limit c"
  shows "parseHistoryQuery P \<lparr>q_sessionId = Some sid, q_cursor = cur, q_limit = limit\<rparr>
      = Some (sid, cur, limit)"
    and "0 < pageSizeOf env limit"
  using assms by (auto simp: walkReady_def parseHistoryQuery_def pageSizeOf_def split: option.splits)

lemma page_at:
  assumes ready: "walkReady P env st sid limit c"
    and k: "k \<le> length (chronological st c)"
  shows "getHistory P env True st
       \<lparr>q_sessionId = Some sid, q_cursor = cursorAt P (chronological st c) k, q_limit = limit\<rparr>
     = pageResult (Inr (map (toRow P)
         (drop (k - nat (pageSizeOf env limit)) (take k (chronological st c)))))"
proof -
  let ?L = "chronological st c"
  let ?n = "pageSizeOf env limit"
  let ?conv = "conversationMessages st c"
  from ready have c: "pgUuid P sid = Some c" by (simp add: walkReady_def)
  note q = walkReady_query[OF ready]
  have len: "length ?L = length ?conv" by (simp add: chronological_def)
  show ?thesis
  proof (cases "k = length ?L")
    case True
    then have cur: "cursorAt P ?L k = None" by (simp add: cursorAt_def)
    have "getRecentMessages P st True sid ?n = Inr (pageOf P ?n ?conv)"
      using c q(2) by (simp add: getRecentMessages_def conversationMessages_def)
    also have "pageOf P ?n ?conv = map (toRow P) (drop (k - nat ?n) (take k ?L))"
      using True len by (simp add: pageOf_drop chronological_def)
    finally have "getRecentMessages P st True sid ?n
        = Inr (map (toRow P) (drop (k - nat ?n) (take k ?L)))" .
    with getHistory_no_cursor[OF q(1), of None env True st] cur show ?thesis
      by (simp add: pageResult_def pageSizeOf_def)
  next
    case False
    with k have lt: "k < length ?L" by simp
    let ?m = "?L ! k"
    have "?m \<in> set ?L" using lt by simp
    then have mem: "?m \<in> set ?conv" by (simp add: chronological_def)
    with ready have rt: "cursorRoundTrips P ?m" by (simp add: walkReady_def)
    have cur: "cursorAt P ?L k = nextCursorOf [toRow P ?m]"
      using False by (simp add: cursorAt_def)
    from rt obtain pc i where
      pc: "parseCursor P (nextCursorOf [toRow P ?m]) = Some pc"
      and t: "pgTimestamptz P (createdAt pc) = Some (stored_created_at ?m)"
      and i: "parsedId pc = Some i" "i \<noteq> []" "pgUuid P i = Some (stored_id ?m)"
      by (auto simp: cursorRoundTrips_def split: option.splits)
    have strict: "sorted_wrt (<) (map orderKey ?L)"
      using ready by (simp add: walkReady_def chronological_strict)
    let ?F = "filter (\<lambda>x. stored_conversation_id x = c \<and> orderKey x < orderKey ?m) (messages st)"
    have F: "?F = filter (\<lambda>x. orderKey x < orderKey ?m) ?conv"
      by (simp add: conversationMessages_def conj_commute)
    have sortF: "sort_key orderKey ?F = take k ?L"
    proof -
      have "sort_key orderKey ?F
          = sort_key orderKey (filter (\<lambda>x. orderKey x < orderKey ?m) ?conv)"
        by (simp only: F)
      also have "\<dots> = filter (\<lambda>x. orderKey x < orderKey ?m) (sort_key orderKey ?conv)"
        by (rule filter_sort[symmetric])
      also have "\<dots> = filter (\<lambda>x. orderKey x < orderKey ?m) ?L"
        by (simp only: chronological_def)
      also have "\<dots> = take k ?L" using strict lt by (rule filter_less_take)
      finally show ?thesis .
    qed
    have lenF: "length ?F = k"
    proof -
      have "length ?F = length (sort_key orderKey ?F)" by simp
      also have "\<dots> = k" unfolding sortF using lt by simp
      finally show ?thesis .
    qed
    have "getOlderMessages P st True
        \<lparr>older_conversationId = sid, cursorCreatedAt = createdAt pc,
         cursorId = parsedId pc, older_limit = ?n\<rparr> = Inr (pageOf P ?n ?F)"
      using c t i q(2) by (simp add: getOlderMessages_def orderKey_def)
    also have "pageOf P ?n ?F = map (toRow P) (drop (k - nat ?n) (take k ?L))"
      by (simp only: pageOf_drop sortF lenF)
    finally have older: "getOlderMessages P st True
        \<lparr>older_conversationId = sid, cursorCreatedAt = createdAt pc,
         cursorId = parsedId pc, older_limit = ?n\<rparr>
        = Inr (map (toRow P) (drop (k - nat ?n) (take k ?L)))" .
    have q': "parseHistoryQuery P
        \<lparr>q_sessionId = Some sid, q_cursor = nextCursorOf [toRow P ?m], q_limit = limit\<rparr>
        = Some (sid, nextCursorOf [toRow P ?m], limit)"
      by (rule q(1))
    from getHistory_with_cursor[OF q' pc, of env True st] older cur show ?thesis
      by (simp add: pageResult_def pageSizeOf_def)
  qed
qed

lemma nextCursorOf_rows:
  "seg \<noteq> [] \<Longrightarrow> nextCursorOf (map (toRow P) seg) = nextCursorOf [toRow P (hd seg)]"
  by (cases seg) (simp_all add: nextCursorOf_def)

lemma nextCursorOf_single: "nextCursorOf [r] \<noteq> None"
  by (simp add: nextCursorOf_def)

lemma walk_from:
  assumes ready: "walkReady P env st sid limit c"
  shows "k \<le> length (chronological st c) \<Longrightarrow> k < fuel \<Longrightarrow>
     \<exists>segs. walkHistory fuel P env st sid limit (cursorAt P (chronological st c) k)
               = Some (map (map (toRow P)) segs)
            \<and> concat (rev segs) = take k (chronological st c)"
proof (induction k arbitrary: fuel rule: less_induct)
  case (less k)
  let ?L = "chronological st c"
  let ?n = "nat (pageSizeOf env limit)"
  let ?seg = "drop (k - ?n) (take k ?L)"
  from less.prems(2) obtain f where fuel: "fuel = Suc f" by (cases fuel) auto
  have n: "0 < ?n" using walkReady_query(2)[OF ready] by simp
  have page: "body (h_response (getHistory P env True st
       \<lparr>q_sessionId = Some sid, q_cursor = cursorAt P ?L k, q_limit = limit\<rparr>))
     = HistoryBody (map (toRow P) ?seg) (nextCursorOf (map (toRow P) ?seg))"
    using page_at[OF ready less.prems(1)] by (simp add: pageResult_def okResponse_def)
  show ?case
  proof (cases "k = 0")
    case True
    then have "walkHistory fuel P env st sid limit (cursorAt P ?L k) = Some [[]]"
      using page fuel by (simp add: nextCursorOf_def)
    then have "walkHistory fuel P env st sid limit (cursorAt P ?L k)
          = Some (map (map (toRow P)) [[]]) \<and> concat (rev [[]]) = take k ?L"
      using True by simp
    then show ?thesis by blast
  next
    case False
    let ?k' = "k - ?n"
    have k': "?k' < k" using False n by simp
    have k'len: "?k' < length ?L" using k' less.prems(1) by simp
    have segne: "?seg \<noteq> []" using k' less.prems(1) by simp
    have "hd ?seg = take k ?L ! ?k'"
      using k' less.prems(1) by (simp add: hd_drop_conv_nth)
    also have "\<dots> = ?L ! ?k'" using k' by simp
    finally have hd: "hd ?seg = ?L ! ?k'" .
    have next_c: "nextCursorOf (map (toRow P) ?seg) = cursorAt P ?L ?k'"
      using nextCursorOf_rows[OF segne, of P] hd k'len by (simp add: cursorAt_def)
    obtain cs where cs: "cursorAt P ?L ?k' = Some cs"
      using k'len nextCursorOf_single[of "toRow P (?L ! ?k')"]
      by (auto simp: cursorAt_def)
    have "?k' < f" using k' less.prems(2) fuel by simp
    from less.IH[OF k' _ this] k'len obtain segs where
      ih: "walkHistory f P env st sid limit (cursorAt P ?L ?k') = Some (map (map (toRow P)) segs)"
        "concat (rev segs) = take ?k' ?L"
      by auto
    have w: "walkHistory fuel P env st sid limit (cursorAt P ?L k)
        = Some (map (map (toRow P)) (?seg # segs))"
      using page fuel next_c cs ih(1) by simp
    have "take ?k' ?L = take ?k' (take k ?L)" using k' by (simp add: min_def)
    then have "concat (rev (?seg # segs)) = take ?k' (take k ?L) @ drop ?k' (take k ?L)"
      using ih(2) by simp
    then have "concat (rev (?seg # segs)) = take k ?L" by (simp only: append_take_drop_id)
    with w show ?thesis by blast
  qed
qed

lemma sorted_wrt_concat_parts:
  "sorted_wrt R (concat xss) \<Longrightarrow> \<forall>xs \<in> set xss. sorted_wrt R xs"
  by (induction xss) (auto simp: sorted_wrt_append)

text \<open>
  Where every cursor decodes to the timestamp and id of the message it was made from, the
  walk does what claim C3 says: started without a cursor and continued with each
  \<open>nextCursor\<close>, it ends, and its pages, the later fetched put in front, are the
  conversation in ascending order of \<open>(created_at, id)\<close>: every message once, each
  page ascending, none repeated and none left out.
\<close>

lemma walk_complete_if_cursor_round_trips:
  assumes ready: "walkReady P env st sid limit c"
    and fuel: "length (conversationMessages st c) < fuel"
  shows "\<exists>segs. walkHistory fuel P env st sid limit None = Some (map (map (toRow P)) segs)
     \<and> concat (rev segs) = chronological st c
     \<and> (\<forall>seg \<in> set segs. sorted_wrt (<) (map orderKey seg))
     \<and> distinct (concat (rev segs))
     \<and> set (concat (rev segs)) = set (conversationMessages st c)"
proof -
  let ?L = "chronological st c"
  have len: "length ?L = length (conversationMessages st c)" by (simp add: chronological_def)
  have start: "cursorAt P ?L (length ?L) = None" by (simp add: cursorAt_def)
  from walk_from[OF ready, of "length ?L" fuel] fuel len start obtain segs where
    w: "walkHistory fuel P env st sid limit None = Some (map (map (toRow P)) segs)"
    and all: "concat (rev segs) = ?L"
    by auto
  have strict: "sorted_wrt (<) (map orderKey ?L)"
    using ready by (simp add: walkReady_def chronological_strict)
  have "sorted_wrt (<) (map orderKey (concat (rev segs)))" using strict all by simp
  then have "sorted_wrt (<) (concat (map (map orderKey) (rev segs)))" by (simp add: map_concat)
  from sorted_wrt_concat_parts[OF this]
  have parts: "\<forall>seg \<in> set segs. sorted_wrt (<) (map orderKey seg)" by simp
  have "distinct (map orderKey ?L)" using strict by (simp add: strict_sorted_iff)
  then have d: "distinct ?L" by (simp add: distinct_map)
  have s: "set ?L = set (conversationMessages st c)" by (simp add: chronological_def)
  from w all parts d s show ?thesis by (intro exI[of _ segs]) simp
qed

lemma sample_round_trips:
  "cursorRoundTrips isoPlatform msgA" "cursorRoundTrips isoPlatform msgB"
proof -
  have ne: "iso100 @ js ''|'' @ idA \<noteq> []" "iso900 @ js ''|'' @ idB \<noteq> []"
    by (simp_all add: sample_nonempty)
  have z: "zodDatetime isoPlatform iso100" "zodDatetime isoPlatform iso900"
    by (simp_all add: isoPlatform_def parseTable_def sample_js_distinct)
  have pa: "parseCursor isoPlatform (Some (iso100 @ js ''|'' @ idA))
      = Some \<lparr>createdAt = iso100, parsedId = Some idA\<rparr>"
    using z sample_nonempty sample_uuid
    by (simp add: parseCursor_two[OF ne(1)] sample_split sample_no_bar sample_toIso sample_trim)
  have pb: "parseCursor isoPlatform (Some (iso900 @ js ''|'' @ idB))
      = Some \<lparr>createdAt = iso900, parsedId = Some idB\<rparr>"
    using z sample_nonempty sample_uuid
    by (simp add: parseCursor_two[OF ne(2)] sample_split sample_no_bar sample_toIso sample_trim)
  have t: "pgTimestamptz isoPlatform iso100 = Some 1766944354100"
    "pgTimestamptz isoPlatform iso900 = Some 1766944354900"
    by (simp_all add: isoPlatform_def parseTable_def sample_js_distinct)
  show "cursorRoundTrips isoPlatform msgA"
    by (simp add: cursorRoundTrips_def nextCursorOf_def sample_rows pa t sample_msgs
        sample_uuid sample_nonempty)
  show "cursorRoundTrips isoPlatform msgB"
    by (simp add: cursorRoundTrips_def nextCursorOf_def sample_rows pb t sample_msgs
        sample_uuid sample_nonempty)
qed

lemma sample_walk_ready: "walkReady isoPlatform sampleEnv sampleStore sampleSession (Some 1) sampleSession"
  by (simp add: walkReady_def sample_uuid conversationMessages_def sampleStore_def sample_msgs
      sample_js_distinct sample_round_trips)

text \<open>
  The same two messages on a platform that renders \<open>created_at\<close> with its
  milliseconds: the walk returns both.
\<close>

lemma walk_complete_sample:
  "\<exists>segs. walkHistory 3 isoPlatform sampleEnv sampleStore sampleSession (Some 1) None
       = Some (map (map (toRow isoPlatform)) segs)
     \<and> concat (rev segs) = [msgA, msgB]"
proof -
  have c: "conversationMessages sampleStore sampleSession = [msgA, msgB]"
    by (simp add: conversationMessages_def sampleStore_def sample_msgs)
  then have l: "length (conversationMessages sampleStore sampleSession) < 3" by simp
  have "chronological sampleStore sampleSession = [msgA, msgB]"
    by (simp add: chronological_def c sample_msgs)
  with walk_complete_if_cursor_round_trips[OF sample_walk_ready l] show ?thesis by auto
qed

end
